theory Spec2Isabelle
  imports Complex_Main "HOL-Library.Word"
begin

section \<open>JavaScript values used by the pages\<close>

text \<open>
  A JavaScript string is a sequence of UTF-16 code units; \<open>charCodeAt\<close> reads one unit
  (0 to 65535) and \<open>trim\<close> is defined on units, so strings are lists of 16-bit words.
  \<open>lit\<close> embeds an ASCII literal of the source.
\<close>

type_synonym jsstring = "16 word list"

definition lit :: "string \<Rightarrow> jsstring" where
  "lit s = map (\<lambda>c. word_of_nat (of_char c)) s"

text \<open>A string is truthy when it is not empty; an absent or null field is falsy.\<close>

fun truthy :: "jsstring option \<Rightarrow> bool" where
  "truthy None = False"
| "truthy (Some s) = (s \<noteq> [])"

text \<open>\<open>x || ''\<close> inside a template literal: the string when truthy, else the empty string.\<close>

fun or_empty :: "jsstring option \<Rightarrow> jsstring" where
  "or_empty None = []"
| "or_empty (Some s) = (if s \<noteq> [] then s else [])"

text \<open>The decimal text of a non-negative integer, as a template literal prints it.\<close>

definition digit_char :: "nat \<Rightarrow> 16 word" where
  "digit_char d = word_of_nat (48 + d)"

function show_nat :: "nat \<Rightarrow> jsstring" where
  "show_nat n =
     (if n < 10 then [digit_char n] else show_nat (n div 10) @ [digit_char (n mod 10)])"
  by pat_completeness auto
termination
  by (relation "measure id") auto

declare show_nat.simps [simp del]

text \<open>
  Numbers. A JavaScript number is an IEEE 754 binary64 value: a finite double, an
  infinity or NaN. \<open>Fin q\<close> is the finite double of value \<open>q\<close>; the numbers that enter
  the pages (JSON numbers, canvas and video dimensions, measured text widths) are
  doubles, given by their values. The sign of zero is not modelled (every zero is +0).
  \<open>+\<close>, \<open>-\<close>, \<open>*\<close> and \<open>/\<close> compute the exact result and round it to the nearest double,
  ties to even, overflowing to an infinity: \<open>to_double\<close>. A division by zero does not
  raise: it yields an infinity or NaN, which then flows through \<open>Math.floor\<close>,
  \<open>Math.max\<close> and the canvas calls.
\<close>

datatype jsnum = Fin rat | PosInf | NegInf | NaN

text \<open>
  The binary exponent of a positive rational, by halving or doubling: for \<open>q\<close> in
  \<open>[2^e, 2^(e+1))\<close> it is \<open>e\<close>, kept within \<open>-1022\<close> (below it the doubles are subnormal,
  on one grid) and \<open>1024\<close> (from there on every value overflows).
\<close>

function up_exp :: "nat \<Rightarrow> rat \<Rightarrow> nat" where
  "up_exp k q = (if k < 1024 \<and> 2 \<le> q then up_exp (k + 1) (q / 2) else k)"
  by pat_completeness auto
termination
  by (relation "measure (\<lambda>(k, q). 1024 - k)") auto

declare up_exp.simps [simp del]

function down_exp :: "nat \<Rightarrow> rat \<Rightarrow> nat" where
  "down_exp k q = (if k < 1022 \<and> q < 1 then down_exp (k + 1) (q * 2) else k)"
  by pat_completeness auto
termination
  by (relation "measure (\<lambda>(k, q). 1022 - k)") auto

declare down_exp.simps [simp del]

definition exponent :: "rat \<Rightarrow> int" where
  "exponent q = (if 1 \<le> q then int (up_exp 0 q) else - int (down_exp 0 q))"

text \<open>The distance between neighbouring doubles of exponent \<open>e\<close>: \<open>2^(e - 52)\<close>.\<close>

definition ulp :: "int \<Rightarrow> rat" where
  "ulp e = (if 52 \<le> e then 2 ^ nat (e - 52) else 1 / 2 ^ nat (52 - e))"

text \<open>The nearest integer, a tie to the even one.\<close>

definition round_even :: "rat \<Rightarrow> int" where
  "round_even m =
     (let f = \<lfloor>m\<rfloor>; d = m - of_int f
      in if d < 1 / 2 then f else if 1 / 2 < d then f + 1 else if even f then f else f + 1)"

text \<open>
  Rounding an exact result to binary64: the nearest multiple of the unit in the last
  place, an infinity when that reaches \<open>2^1024\<close>.
\<close>

definition to_double :: "rat \<Rightarrow> jsnum" where
  "to_double q =
     (if q = 0 then Fin 0
      else (let u = ulp (exponent \<bar>q\<bar>);
                r = of_int (round_even (\<bar>q\<bar> / u)) * u
            in if 2 ^ 1024 \<le> r then (if 0 < q then PosInf else NegInf)
               else Fin (if 0 < q then r else - r)))"

fun signed_inf :: "rat \<Rightarrow> bool \<Rightarrow> jsnum" where
  "signed_inf a pos = (if a = 0 then NaN else if (0 < a) = pos then PosInf else NegInf)"

fun js_neg :: "jsnum \<Rightarrow> jsnum" where
  "js_neg (Fin a) = Fin (- a)"
| "js_neg PosInf = NegInf"
| "js_neg NegInf = PosInf"
| "js_neg NaN = NaN"

fun js_add :: "jsnum \<Rightarrow> jsnum \<Rightarrow> jsnum" where
  "js_add (Fin a) (Fin b) = to_double (a + b)"
| "js_add NaN y = NaN"
| "js_add x NaN = NaN"
| "js_add PosInf NegInf = NaN"
| "js_add NegInf PosInf = NaN"
| "js_add PosInf y = PosInf"
| "js_add NegInf y = NegInf"
| "js_add (Fin a) y = y"

definition js_sub :: "jsnum \<Rightarrow> jsnum \<Rightarrow> jsnum" where
  "js_sub x y = js_add x (js_neg y)"

fun js_mul :: "jsnum \<Rightarrow> jsnum \<Rightarrow> jsnum" where
  "js_mul (Fin a) (Fin b) = to_double (a * b)"
| "js_mul NaN y = NaN"
| "js_mul x NaN = NaN"
| "js_mul (Fin a) PosInf = signed_inf a True"
| "js_mul (Fin a) NegInf = signed_inf a False"
| "js_mul PosInf (Fin b) = signed_inf b True"
| "js_mul NegInf (Fin b) = signed_inf b False"
| "js_mul PosInf PosInf = PosInf"
| "js_mul NegInf NegInf = PosInf"
| "js_mul PosInf NegInf = NegInf"
| "js_mul NegInf PosInf = NegInf"

fun js_div :: "jsnum \<Rightarrow> jsnum \<Rightarrow> jsnum" where
  "js_div (Fin a) (Fin b) = (if b = 0 then signed_inf a True else to_double (a / b))"
| "js_div NaN y = NaN"
| "js_div x NaN = NaN"
| "js_div (Fin a) y = Fin 0"
| "js_div PosInf (Fin b) = (if 0 \<le> b then PosInf else NegInf)"
| "js_div NegInf (Fin b) = (if 0 \<le> b then NegInf else PosInf)"
| "js_div PosInf PosInf = NaN"
| "js_div PosInf NegInf = NaN"
| "js_div NegInf PosInf = NaN"
| "js_div NegInf NegInf = NaN"

fun js_lt :: "jsnum \<Rightarrow> jsnum \<Rightarrow> bool" where
  "js_lt (Fin a) (Fin b) = (a < b)"
| "js_lt NaN y = False"
| "js_lt x NaN = False"
| "js_lt x NegInf = False"
| "js_lt NegInf y = True"
| "js_lt PosInf y = False"
| "js_lt (Fin a) PosInf = True"

text \<open>\<open>Math.max\<close> and \<open>Math.min\<close> of two arguments: NaN when either is NaN.\<close>

definition js_max :: "jsnum \<Rightarrow> jsnum \<Rightarrow> jsnum" where
  "js_max x y = (if x = NaN \<or> y = NaN then NaN else if js_lt x y then y else x)"

definition js_min :: "jsnum \<Rightarrow> jsnum \<Rightarrow> jsnum" where
  "js_min x y = (if x = NaN \<or> y = NaN then NaN else if js_lt y x then y else x)"

fun js_floor :: "jsnum \<Rightarrow> jsnum" where
  "js_floor (Fin a) = Fin (of_int \<lfloor>a\<rfloor>)"
| "js_floor x = x"

text \<open>
  \<open>Math.floor\<close> and \<open>Math.round\<close> are exact: the floor of a double is a double, and
  \<open>Math.round\<close> gives the nearest integer, a tie towards plus infinity.
\<close>

fun js_round :: "jsnum \<Rightarrow> jsnum" where
  "js_round (Fin a) = Fin (of_int \<lfloor>a + 1 / 2\<rfloor>)"
| "js_round x = x"

definition of_dim :: "nat \<Rightarrow> jsnum" where
  "of_dim n = Fin (of_nat n)"

section \<open>The identity colour (\<open>colorForId\<close>)\<close>

text \<open>
  \<open>hash >>> 0\<close> is ToUint32. Before it, \<open>hash * 31 + key.charCodeAt(i)\<close> is below
  \<open>31 * 2^32 + 2^16\<close>, so the double holds it exactly and the natural number below is
  the value the engine computes. The \<open>for\<close> loop over the index is \<open>hash_loop\<close>.
\<close>

definition to_uint32 :: "nat \<Rightarrow> nat" where
  "to_uint32 n = n mod 2 ^ 32"

function hash_loop :: "jsstring \<Rightarrow> nat \<Rightarrow> nat \<Rightarrow> nat" where
  "hash_loop key i hash =
     (if i < length key
      then hash_loop key (i + 1) (to_uint32 (hash * 31 + unat (key ! i)))
      else hash)"
  by pat_completeness auto
termination
  by (relation "measure (\<lambda>(key, i, hash). length key - i)") auto

declare hash_loop.simps [simp del]

definition hue_of :: "jsstring \<Rightarrow> nat" where
  "hue_of key = hash_loop key 0 0 mod 360"

definition colorForId :: "jsstring \<Rightarrow> jsstring" where
  "colorForId key = lit ''hsl('' @ show_nat (hue_of key) @ lit '', 80%, 55%)''"

text \<open>
  The hash as the specification words it: a polynomial rolling hash, accumulator times 31
  plus the character code, in unsigned 32-bit arithmetic.
\<close>

definition rolling_hash :: "jsstring \<Rightarrow> 32 word" where
  "rolling_hash key = foldl (\<lambda>acc c. acc * 31 + ucast c) 0 key"

section \<open>The recognition page: data\<close>

text \<open>
  One entry of \<open>data.results\<close>, with the fields the page reads. \<open>bbox\<close> is \<open>None\<close>
  when the field is absent or not an array, else the array's numbers. An optional string
  field is \<open>None\<close> when absent or null.
\<close>

record result =
  name :: jsstring
  personnel_id :: "jsstring option"
  recognized :: bool
  score :: "rat option"
  bbox :: "rat list option"
  face_image_url :: "jsstring option"
  recognized_at :: "jsstring option"

text \<open>
  The parsed body of \<open>/api/recognize\<close>: \<open>results\<close> is \<open>None\<close> when the field is absent
  or not an array, and likewise \<open>image_size\<close>.
\<close>

record response =
  results :: "result list option"
  image_size :: "rat list option"

text \<open>
  What one drawing call leaves on the surface: the call with its arguments and the
  context attributes that decide how it paints.
\<close>

datatype draw_op =
    StrokeRect jsstring rat rat rat rat rat
  | FillRect jsstring rat rat rat rat
  | FillText jsstring rat jsstring rat rat

text \<open>
  The overlay canvas \<open>draw\<close> with its 2D context: the bitmap's size, the context
  attributes the page sets, and the calls painted since the surface was last cleared.
  \<open>font_px\<close> is the pixel size of the current font, which is what
  \<open>parseInt(dctx.font, 10)\<close> reads back.
\<close>

record canvas =
  cwidth :: nat
  cheight :: nat
  lineWidth :: rat
  strokeStyle :: jsstring
  fillStyle :: jsstring
  font_px :: rat
  textBaseline :: jsstring
  ops :: "draw_op list"

text \<open>\<open>dctx.clearRect(0, 0, draw.width, draw.height)\<close> clears the whole surface.\<close>

definition clearRect :: "canvas \<Rightarrow> canvas" where
  "clearRect c = c\<lparr>ops := []\<rparr>"

text \<open>
  Assigning \<open>draw.width\<close> or \<open>draw.height\<close> clears the bitmap and resets the context to
  its defaults (black styles, line width 1, font 10px sans-serif, alphabetic baseline).
\<close>

definition set_size :: "nat \<Rightarrow> nat \<Rightarrow> canvas \<Rightarrow> canvas" where
  "set_size w h c =
     \<lparr>cwidth = w, cheight = h, lineWidth = 1, strokeStyle = lit ''#000000'',
      fillStyle = lit ''#000000'', font_px = 10, textBaseline = lit ''alphabetic'',
      ops = []\<rparr>"

text \<open>The context ignores a line width that is not finite and positive.\<close>

fun set_lineWidth :: "jsnum \<Rightarrow> canvas \<Rightarrow> canvas" where
  "set_lineWidth (Fin q) c = (if 0 < q then c\<lparr>lineWidth := q\<rparr> else c)"
| "set_lineWidth x c = c"

text \<open>
  \<open>dctx.font = `${n}px Segoe UI, Roboto, Arial`\<close>: a finite non-negative size is a valid
  font and is taken; \<open>Infinitypx\<close>, \<open>NaNpx\<close> and a negative size are not, and the
  assignment is ignored.
\<close>

fun set_font :: "jsnum \<Rightarrow> canvas \<Rightarrow> canvas" where
  "set_font (Fin q) c = (if 0 \<le> q then c\<lparr>font_px := q\<rparr> else c)"
| "set_font x c = c"

text \<open>The drawing calls return without painting when an argument is not finite.\<close>

fun strokeRect :: "jsnum \<Rightarrow> jsnum \<Rightarrow> jsnum \<Rightarrow> jsnum \<Rightarrow> canvas \<Rightarrow> canvas" where
  "strokeRect (Fin x) (Fin y) (Fin w) (Fin h) c =
     c\<lparr>ops := ops c @ [StrokeRect (strokeStyle c) (lineWidth c) x y w h]\<rparr>"
| "strokeRect x y w h c = c"

fun fillRect :: "jsnum \<Rightarrow> jsnum \<Rightarrow> jsnum \<Rightarrow> jsnum \<Rightarrow> canvas \<Rightarrow> canvas" where
  "fillRect (Fin x) (Fin y) (Fin w) (Fin h) c =
     c\<lparr>ops := ops c @ [FillRect (fillStyle c) x y w h]\<rparr>"
| "fillRect x y w h c = c"

fun fillText :: "jsstring \<Rightarrow> jsnum \<Rightarrow> jsnum \<Rightarrow> canvas \<Rightarrow> canvas" where
  "fillText s (Fin x) (Fin y) c =
     c\<lparr>ops := ops c @ [FillText (fillStyle c) (font_px c) s x y]\<rparr>"
| "fillText s x y c = c"

text \<open>
  What the browser supplies when a cycle's response is handled: the video's native size,
  \<open>Date.now()\<close>, the width \<open>measureText\<close> reports for a text in a font of a given pixel
  size, and the built-in formatters \<open>toFixed(3)\<close> and \<open>Date.toLocaleString\<close>.
\<close>

record env =
  videoWidth :: nat
  videoHeight :: nat
  now :: nat
  measureText :: "rat \<Rightarrow> jsstring \<Rightarrow> rat"
  toFixed3 :: "rat \<Rightarrow> jsstring"
  toLocaleString :: "jsstring \<Rightarrow> jsstring"

section \<open>The recognition page: drawing one result\<close>

text \<open>Lines 149 and 157: the identity key and the stroke colour of a result.\<close>

definition identityKey :: "result \<Rightarrow> jsstring" where
  "identityKey r = name r @ lit ''|'' @ or_empty (personnel_id r)"

definition stroke_of :: "result \<Rightarrow> jsstring" where
  "stroke_of r = (if recognized r then colorForId (identityKey r) else lit ''hsl(0, 0%, 75%)'')"

text \<open>Lines 160 and 161: the name, then the identifier in brackets when it is truthy.\<close>

definition pidFrag :: "jsstring option \<Rightarrow> jsstring" where
  "pidFrag p =
     (case p of
        Some s \<Rightarrow> (if s \<noteq> [] then lit '' ['' @ s @ lit '']'' else [])
      | None \<Rightarrow> [])"

definition label_of :: "result \<Rightarrow> jsstring" where
  "label_of r = name r @ pidFrag (personnel_id r)"

text \<open>
  The callback of \<open>data.results.forEach\<close> (lines 147 to 174). \<open>scaleX\<close>, \<open>scaleY\<close> and
  \<open>lw\<close> are the variables of the enclosing scope; the surface width is read from the
  canvas. \<open>label_rect\<close> is the label's background rectangle (lines 165 to 169: left,
  top, width, height) for a font size and the measured width of the text;
  \<open>draw_label\<close> is the label part (lines 160 to 173), for the corner \<open>x1\<close>, \<open>y1\<close> and
  the height \<open>h\<close> computed above it (the literal \<open>0.08\<close> denotes the double nearest to
  8 / 100); \<open>draw_box\<close> is the callback from line 149 on, for the four numbers of a
  well-formed \<open>bbox\<close>; \<open>draw_result\<close> is the whole callback, which returns at once
  (line 148) when \<open>bbox\<close> is not an array of exactly four elements.
\<close>

definition label_rect ::
  "jsnum \<Rightarrow> jsnum \<Rightarrow> jsnum \<Rightarrow> nat \<Rightarrow> rat \<Rightarrow> rat \<Rightarrow> jsnum \<times> jsnum \<times> jsnum \<times> jsnum" where
  "label_rect lw x1 y1 width font measured =
     (let textW = js_add (Fin measured) (Fin 10);
          textH = js_max (Fin 18) (js_round (js_add (Fin (of_int \<lfloor>font\<rfloor>)) (Fin 6)));
          ty0 = js_sub (js_sub y1 textH) (Fin 4);
          ty = (if js_lt ty0 (Fin 0) then js_add y1 lw else ty0);
          tx = js_max (Fin 0) (js_min (js_sub (js_sub (of_dim width) textW) (Fin 2)) x1)
      in (tx, ty, textW, textH))"

definition draw_label :: "env \<Rightarrow> jsnum \<Rightarrow> result \<Rightarrow> jsnum \<Rightarrow> jsnum \<Rightarrow> jsnum \<Rightarrow> canvas \<Rightarrow> canvas" where
  "draw_label e lw r x1 y1 h c1 =
     (let label = label_of r;
          c2 = set_font (js_max (Fin 14) (js_round (js_mul h (to_double (8 / 100))))) c1;
          c3 = c2\<lparr>textBaseline := lit ''top''\<rparr>;
          (tx, ty, textW, textH) =
             label_rect lw x1 y1 (cwidth c3) (font_px c3) (measureText e (font_px c3) label);
          c4 = fillRect tx ty textW textH (c3\<lparr>fillStyle := lit ''rgba(0,0,0,0.65)''\<rparr>)
      in fillText label (js_add tx (Fin 5)) (js_add ty (Fin 3))
           (c4\<lparr>fillStyle := lit ''#e2e8f0''\<rparr>))"

definition draw_box ::
  "env \<Rightarrow> jsnum \<Rightarrow> jsnum \<Rightarrow> jsnum \<Rightarrow> result \<Rightarrow> rat \<Rightarrow> rat \<Rightarrow> rat \<Rightarrow> rat \<Rightarrow> canvas \<Rightarrow> canvas" where
  "draw_box e scaleX scaleY lw r bx1 by1 bx2 by2 c =
     (let x1 = js_max (Fin 0) (js_floor (js_mul (Fin bx1) scaleX));
          y1 = js_max (Fin 0) (js_floor (js_mul (Fin by1) scaleY));
          x2 = js_max (Fin 0) (js_floor (js_mul (Fin bx2) scaleX));
          y2 = js_max (Fin 0) (js_floor (js_mul (Fin by2) scaleY));
          w = js_max (Fin 0) (js_sub x2 x1);
          h = js_max (Fin 0) (js_sub y2 y1);
          c1 = strokeRect x1 y1 w h (c\<lparr>strokeStyle := stroke_of r\<rparr>)
      in draw_label e lw r x1 y1 h c1)"

definition draw_result :: "env \<Rightarrow> jsnum \<Rightarrow> jsnum \<Rightarrow> jsnum \<Rightarrow> result \<Rightarrow> canvas \<Rightarrow> canvas" where
  "draw_result e scaleX scaleY lw r c =
     (case bbox r of
        Some [bx1, by1, bx2, by2] \<Rightarrow> draw_box e scaleX scaleY lw r bx1 by1 bx2 by2 c
      | _ \<Rightarrow> c)"

text \<open>\<open>forEach\<close> runs the callback on the results in order.\<close>

fun draw_results :: "env \<Rightarrow> jsnum \<Rightarrow> jsnum \<Rightarrow> jsnum \<Rightarrow> result list \<Rightarrow> canvas \<Rightarrow> canvas" where
  "draw_results e scaleX scaleY lw [] c = c"
| "draw_results e scaleX scaleY lw (r # rs) c =
     draw_results e scaleX scaleY lw rs (draw_result e scaleX scaleY lw r c)"

section \<open>The recognition page: state and handlers\<close>

text \<open>
  The \<open>message\<close> element and the timeouts \<open>showMessage\<close> has pending to clear it
  (their delays in milliseconds).
\<close>

record message =
  textContent :: jsstring
  className :: jsstring
  clear_timers :: "nat list"

definition showMessage :: "nat \<Rightarrow> jsstring \<Rightarrow> bool \<Rightarrow> message \<Rightarrow> message" where
  "showMessage delay txt isError m =
     \<lparr>textContent = txt,
      className = lit ''message '' @ (if isError then lit ''error'' else []),
      clear_timers = (if txt \<noteq> [] then clear_timers m @ [delay] else clear_timers m)\<rparr>"

text \<open>
  The page's state: the globals \<open>recognizing\<close> and \<open>recogTimer\<close>, the elements the loop
  writes, the overlay canvas, and the browser's side of the loop: the timeouts of
  \<open>loopRecognize\<close> that are pending (handle and delay), the next handle \<open>setTimeout\<close>
  will return, and the number of cycles suspended at an \<open>await\<close>. An element that
  \<open>getElementById\<close> may not find is an option: \<open>thumbWrap\<close> holds whether its class list
  has \<open>hidden\<close>, \<open>lastFace\<close> its \<open>src\<close> attribute, \<open>lastFaceTime\<close> its text.
  A timer handle is a positive integer, so \<open>if (recogTimer)\<close> tests for null.
\<close>

record page =
  recognizing :: bool
  recogTimer :: "nat option"
  toggleText :: jsstring
  currentName :: jsstring
  currentScore :: jsstring
  thumbWrap :: "bool option"
  lastFace :: "jsstring option option"
  lastFaceTime :: "jsstring option"
  msg :: message
  draw :: canvas
  timers :: "(nat \<times> nat) list"
  next_handle :: nat
  inflight :: nat

text \<open>The outcome of a cycle's awaits: a rejection, or the parsed body (\<open>None\<close> is null).\<close>

datatype outcome = CaptureFailed | FetchRejected | JsonRejected | Parsed "response option"

text \<open>Lines 118 and 119: the source size, from the response or else the video.\<close>

definition source_size :: "env \<Rightarrow> response \<Rightarrow> rat \<times> rat" where
  "source_size e d =
     (case image_size d of
        Some [w, h] \<Rightarrow> (w, h)
      | _ \<Rightarrow> (of_nat (videoWidth e), of_nat (videoHeight e)))"

text \<open>Line 123: \<open>data.results.find(r => r.recognized) || data.results[0]\<close>.\<close>

definition first_match :: "result \<Rightarrow> result list \<Rightarrow> result" where
  "first_match r0 rs = (case find recognized (r0 # rs) of Some r \<Rightarrow> r | None \<Rightarrow> r0)"

text \<open>Lines 114 to 117: the canvas is resized only when its size differs from the video's.\<close>

definition match_video :: "env \<Rightarrow> canvas \<Rightarrow> canvas" where
  "match_video e c =
     (if cwidth c \<noteq> videoWidth e \<or> cheight c \<noteq> videoHeight e
      then set_size (videoWidth e) (videoHeight e) c
      else c)"

text \<open>Lines 124 to 134: the side panel shows \<open>first\<close>.\<close>

definition show_thumb :: "env \<Rightarrow> result \<Rightarrow> jsstring \<Rightarrow> page \<Rightarrow> page" where
  "show_thumb e first url s =
     s\<lparr>thumbWrap := map_option (\<lambda>_. False) (thumbWrap s),
       lastFace := map_option (\<lambda>_. Some (url @ lit ''?t='' @ show_nat (now e))) (lastFace s),
       lastFaceTime :=
         (case recognized_at first of
            Some t \<Rightarrow>
              (if t \<noteq> [] then map_option (\<lambda>_. lit ''at '' @ toLocaleString e t) (lastFaceTime s)
               else lastFaceTime s)
          | None \<Rightarrow> lastFaceTime s)\<rparr>"

definition show_first :: "env \<Rightarrow> result \<Rightarrow> page \<Rightarrow> page" where
  "show_first e first s =
     (let scoreText = (case score first of
                         Some x \<Rightarrow> lit ''(score: '' @ toFixed3 e x @ lit '')''
                       | None \<Rightarrow> []);
          shown = (case personnel_id first of
                     Some p \<Rightarrow> (if p \<noteq> [] then name first @ lit '' ['' @ p @ lit '']''
                                else name first)
                   | None \<Rightarrow> name first);
          s1 = s\<lparr>currentName := shown, currentScore := scoreText\<rparr>
      in case face_image_url first of
           Some url \<Rightarrow> (if url \<noteq> [] then show_thumb e first url s1 else s1)
         | None \<Rightarrow> s1)"

text \<open>Lines 176 to 182: nothing to show.\<close>

definition show_nothing :: "page \<Rightarrow> page" where
  "show_nothing s =
     s\<lparr>currentName := lit ''-'',
       currentScore := [],
       thumbWrap := map_option (\<lambda>_. True) (thumbWrap s),
       lastFace := map_option (\<lambda>_. None) (lastFace s),
       lastFaceTime := map_option (\<lambda>_. []) (lastFaceTime s),
       draw := clearRect (draw s)\<rparr>"

text \<open>Line 136: the line width for the surface's size.\<close>

definition stroke_width :: "canvas \<Rightarrow> jsnum" where
  "stroke_width c =
     js_max (Fin 2) (js_round (js_div (js_min (of_dim (cwidth c)) (of_dim (cheight c))) (Fin 300)))"

text \<open>
  Lines 110 to 183: what \<open>loopRecognize\<close> does with the parsed body \<open>data\<close>, after the
  surface has been cleared.
\<close>

definition render :: "env \<Rightarrow> response \<Rightarrow> page \<Rightarrow> page" where
  "render e d s0 =
     (let s = s0\<lparr>draw := clearRect (draw s0)\<rparr> in
      case results d of
        Some (r0 # rs) \<Rightarrow>
          (let c = match_video e (draw s);
               (srcW, srcH) = source_size e d;
               scaleX = js_div (of_dim (cwidth c)) (Fin srcW);
               scaleY = js_div (of_dim (cheight c)) (Fin srcH);
               s1 = show_first e (first_match r0 rs) s;
               lw = stroke_width c
           in s1\<lparr>draw := draw_results e scaleX scaleY lw (r0 # rs) (set_lineWidth lw c)\<rparr>)
      | _ \<Rightarrow> show_nothing s)"

text \<open>
  \<open>loopRecognize\<close> up to its first \<open>await\<close>: it returns at once when recognition is off,
  and otherwise a cycle is in flight.
\<close>

definition loopRecognize_start :: "page \<Rightarrow> page" where
  "loopRecognize_start s = (if \<not> recognizing s then s else s\<lparr>inflight := inflight s + 1\<rparr>)"

text \<open>\<open>recogTimer = setTimeout(loopRecognize, 1000)\<close>.\<close>

definition schedule_next :: "page \<Rightarrow> page" where
  "schedule_next s =
     s\<lparr>recogTimer := Some (next_handle s),
       timers := timers s @ [(next_handle s, 1000)],
       next_handle := next_handle s + 1\<rparr>"

text \<open>
  The rest of \<open>loopRecognize\<close>, once its awaits have settled. A rejection leaves the
  \<open>try\<close> block before line 110. A null body is cleared from the surface at line 111 and
  throws at line 112. The \<open>catch\<close> block is empty, and \<open>finally\<close> schedules the next run.
\<close>

definition loopRecognize_finish :: "env \<Rightarrow> outcome \<Rightarrow> page \<Rightarrow> page" where
  "loopRecognize_finish e out s =
     (let s1 = (case out of
                  Parsed (Some d) \<Rightarrow> render e d s
                | Parsed None \<Rightarrow> s\<lparr>draw := clearRect (draw s)\<rparr>
                | _ \<Rightarrow> s)
      in schedule_next (s1\<lparr>inflight := inflight s1 - 1\<rparr>))"

text \<open>\<open>clearTimeout\<close> cancels the timeout of that handle, if it is pending.\<close>

definition clearTimeout :: "nat \<Rightarrow> (nat \<times> nat) list \<Rightarrow> (nat \<times> nat) list" where
  "clearTimeout h ts = filter (\<lambda>t. fst t \<noteq> h) ts"

text \<open>Lines 88 to 99: the click handler of \<open>recognizeToggle\<close>.\<close>

definition toggle_click :: "page \<Rightarrow> page" where
  "toggle_click s0 =
     (let s = s0\<lparr>recognizing := \<not> recognizing s0,
                  toggleText := (if \<not> recognizing s0 then lit ''Stop Recognizing''
                                 else lit ''Start Recognizing'')\<rparr>
      in if recognizing s then loopRecognize_start s
         else (case recogTimer s of
                 Some h \<Rightarrow> s\<lparr>timers := clearTimeout h (timers s), recogTimer := None,
                              draw := clearRect (draw s)\<rparr>
               | None \<Rightarrow> s))"

text \<open>
  The page runs on one thread: each handler runs to its end or to its next \<open>await\<close>
  before another event is taken. The events are a click on the toggle, a pending timeout
  firing, and a cycle in flight settling with some outcome.
\<close>

datatype event = Click | TimerFire nat | CycleDone env outcome

fun step :: "event \<Rightarrow> page \<Rightarrow> page option" where
  "step Click s = Some (toggle_click s)"
| "step (TimerFire h) s =
     (if h \<in> fst ` set (timers s)
      then Some (loopRecognize_start (s\<lparr>timers := clearTimeout h (timers s)\<rparr>))
      else None)"
| "step (CycleDone e out) s =
     (if 0 < inflight s then Some (loopRecognize_finish e out s) else None)"

fun run :: "event list \<Rightarrow> page \<Rightarrow> page option" where
  "run [] s = Some s"
| "run (ev # evs) s = (case step ev s of None \<Rightarrow> None | Some s' \<Rightarrow> run evs s')"

text \<open>A freshly loaded page: recognition off, nothing scheduled or in flight, nothing drawn.\<close>

definition fresh :: "page \<Rightarrow> bool" where
  "fresh s \<longleftrightarrow>
     \<not> recognizing s \<and> recogTimer s = None \<and> timers s = [] \<and> inflight s = 0 \<and>
     ops (draw s) = []"

text \<open>
  A run in which recognition is switched on only while no earlier cycle is in flight and
  no timeout is pending.
\<close>

fun unhurried :: "event list \<Rightarrow> page \<Rightarrow> bool" where
  "unhurried [] s = True"
| "unhurried (ev # evs) s =
     ((ev = Click \<and> \<not> recognizing s \<longrightarrow> inflight s = 0 \<and> timers s = []) \<and>
      (case step ev s of None \<Rightarrow> True | Some s' \<Rightarrow> unhurried evs s'))"

section \<open>The registration page\<close>

text \<open>
  \<open>String.prototype.trim\<close> removes the white space and line terminator code units of
  ECMAScript from both ends.
\<close>

definition is_space :: "16 word \<Rightarrow> bool" where
  "is_space c \<longleftrightarrow>
     unat c \<in> {9, 10, 11, 12, 13, 32, 160, 5760, 8232, 8233, 8239, 8287, 12288, 65279} \<or>
     (8192 \<le> unat c \<and> unat c \<le> 8202)"

definition trim :: "jsstring \<Rightarrow> jsstring" where
  "trim s = rev (dropWhile is_space (rev (dropWhile is_space s)))"

text \<open>A multipart form: the fields appended, in order.\<close>

datatype field = TextField jsstring | FileField jsstring

type_synonym form = "(jsstring \<times> field) list"

text \<open>
  The page of \<open>register.js\<close>: the two inputs' values, the \<open>message\<close> element, and the
  forms posted to \<open>/api/register\<close> so far.
\<close>

record reg_page =
  nameInput :: jsstring
  personnelIdInput :: jsstring
  message_el :: message
  posted :: "form list"

text \<open>
  The body of an answer that is not ok, as \<open>res.json().catch(() => ({}))\<close> sees it:
  not JSON at all, the JSON value null, or another JSON value with its \<open>detail\<close>
  property (\<open>None\<close> when it has none; the service sends a string).
\<close>

datatype err_body = NotJson | JsonNull | JsonValue "jsstring option"

text \<open>
  What happens to a click's request: the frame capture throws before anything is sent,
  \<open>fetch\<close> rejects, or the server answers with \<open>res.ok\<close> and a body. The strings are
  the \<open>message\<close> of the error thrown.
\<close>

datatype reply = NoBlob jsstring | NoAnswer jsstring | Answer bool err_body

text \<open>Lines 59 to 62: the form of a registration.\<close>

definition register_form :: "jsstring \<Rightarrow> jsstring \<Rightarrow> form" where
  "register_form nm pid =
     [(lit ''name'', TextField nm)] @
     (if pid \<noteq> [] then [(lit ''personnel_id'', TextField pid)] else []) @
     [(lit ''image'', FileField (lit ''frame.jpg''))]"

text \<open>
  Lines 64 to 67: the message of the error thrown for an answer that is not ok.
  \<open>null_message\<close> is the text of the engine's TypeError for reading a property of null.
\<close>

definition failure_text :: "jsstring \<Rightarrow> err_body \<Rightarrow> jsstring" where
  "failure_text null_message b =
     (case b of
        NotJson \<Rightarrow> lit ''Registration failed''
      | JsonNull \<Rightarrow> null_message
      | JsonValue None \<Rightarrow> lit ''Registration failed''
      | JsonValue (Some detail) \<Rightarrow> (if detail \<noteq> [] then detail else lit ''Registration failed''))"

text \<open>Lines 50 to 74: the click handler of \<open>registerBtn\<close>, given what becomes of its request.\<close>

definition register_click :: "jsstring \<Rightarrow> reply \<Rightarrow> reg_page \<Rightarrow> reg_page" where
  "register_click null_message rep s =
     (let nm = trim (nameInput s);
          personnelId = trim (personnelIdInput s)
      in if nm = []
         then s\<lparr>message_el := showMessage 5000 (lit ''Please enter full name'') True (message_el s)\<rparr>
         else (case rep of
                 NoBlob m \<Rightarrow> s\<lparr>message_el := showMessage 5000 m True (message_el s)\<rparr>
               | NoAnswer m \<Rightarrow>
                   s\<lparr>posted := posted s @ [register_form nm personnelId],
                     message_el := showMessage 5000 m True (message_el s)\<rparr>
               | Answer ok b \<Rightarrow>
                   (if \<not> ok
                    then s\<lparr>posted := posted s @ [register_form nm personnelId],
                           message_el := showMessage 5000 (failure_text null_message b) True
                                           (message_el s)\<rparr>
                    else s\<lparr>posted := posted s @ [register_form nm personnelId],
                           nameInput := [], personnelIdInput := [],
                           message_el := showMessage 5000 (lit ''Registered successfully'') False
                                           (message_el s)\<rparr>)))"

section \<open>Auxiliary definitions for the proofs\<close>

text \<open>A stroked rectangle has no negative corner, width or height.\<close>

fun nonneg_rect :: "draw_op \<Rightarrow> bool" where
  "nonneg_rect (StrokeRect st lwd x y w h) = (0 \<le> x \<and> 0 \<le> y \<and> 0 \<le> w \<and> 0 \<le> h)"
| "nonneg_rect other = True"

text \<open>A rational that is a double: rounding leaves it as it is.\<close>

definition representable :: "rat \<Rightarrow> bool" where
  "representable q \<longleftrightarrow> to_double q = Fin q"

text \<open>Two invariants of the page's runs.\<close>

text \<open>While no handle is stored, nothing is painted on the surface.\<close>

definition clear_unless_timer :: "page \<Rightarrow> bool" where
  "clear_unless_timer s \<longleftrightarrow> (recogTimer s = None \<longrightarrow> ops (draw s) = [])"

text \<open>At most one cycle is in flight or pending, and a pending one is the stored handle's.\<close>

definition single_cycle :: "page \<Rightarrow> bool" where
  "single_cycle s \<longleftrightarrow>
     inflight s + length (timers s) \<le> 1 \<and> (\<forall>t\<in>set (timers s). recogTimer s = Some (fst t))"

section \<open>Example inputs\<close>

definition example_env :: env where
  "example_env =
     \<lparr>videoWidth = 1280, videoHeight = 960, now = 1700000000000,
      measureText = (\<lambda>px s. px * of_nat (length s) / 2),
      toFixed3 = (\<lambda>x. lit ''0.912''), toLocaleString = (\<lambda>t. t)\<rparr>"

definition ada :: result where
  "ada = \<lparr>name = lit ''Ada'', personnel_id = Some (lit ''7''), recognized = True,
          score = Some (912 / 1000), bbox = Some [100, 50, 300, 250],
          face_image_url = None, recognized_at = None\<rparr>"

definition stranger :: result where
  "stranger = \<lparr>name = lit ''Unknown'', personnel_id = None, recognized = False,
          score = None, bbox = Some [400, 300, 350, 200],
          face_image_url = None, recognized_at = None\<rparr>"

definition broken :: result where
  "broken = \<lparr>name = lit ''Bob'', personnel_id = None, recognized = False,
          score = None, bbox = Some [1, 2, 3],
          face_image_url = None, recognized_at = None\<rparr>"

definition example_data :: response where
  "example_data = \<lparr>results = Some [stranger, broken, ada], image_size = Some [640, 480]\<rparr>"

definition example_page :: page where
  "example_page =
     \<lparr>recognizing = False, recogTimer = None, toggleText = lit ''Start Recognizing'',
      currentName = lit ''-'', currentScore = [], thumbWrap = Some True,
      lastFace = Some None, lastFaceTime = Some [],
      msg = \<lparr>textContent = [], className = lit ''message'', clear_timers = []\<rparr>,
      draw = \<lparr>cwidth = 300, cheight = 150, lineWidth = 1, strokeStyle = lit ''#000000'',
               fillStyle = lit ''#000000'', font_px = 10, textBaseline = lit ''alphabetic'',
               ops = []\<rparr>,
      timers = [], next_handle = 1, inflight = 0\<rparr>"

definition blank_form :: reg_page where
  "blank_form =
     \<lparr>nameInput = lit ''  '', personnelIdInput = lit ''E-17'',
      message_el = \<lparr>textContent = [], className = lit ''message'', clear_timers = []\<rparr>,
      posted = []\<rparr>"

definition filled_form :: reg_page where
  "filled_form = blank_form\<lparr>nameInput := lit '' Ada ''\<rparr>"

definition skewed :: result where
  "skewed = ada\<lparr>bbox := Some [49, 50, 98, 250]\<rparr>"

definition skewed_data :: response where
  "skewed_data = \<lparr>results = Some [skewed], image_size = Some [490, 480]\<rparr>"




section \<open>Literals\<close>

lemma lit_simps: "lit [] = []" "lit (c # cs) = word_of_nat (of_char c) # lit cs"
  by (simp_all add: lit_def)

lemma length_lit [simp]: "length (lit s) = length s"
  by (simp add: lit_def)

section \<open>The registration page: properties\<close>

lemma is_space_32: "is_space 32"
  by (simp add: is_space_def)

lemma trim_blank: "trim (lit ''  '') = []"
  by (simp add: trim_def lit_simps is_space_32)

text \<open>
  C10. A click on the register button while the name is empty after trimming posts
  nothing to the registration endpoint, shows the error message asking for the name, and
  leaves both inputs as they were, whatever the personnel identifier input holds and
  whatever the server would have answered.
\<close>

theorem empty_name_sends_nothing:
  assumes "trim (nameInput s) = []"
  shows "posted (register_click nm rep s) = posted s \<and>
         textContent (message_el (register_click nm rep s)) = lit ''Please enter full name'' \<and>
         className (message_el (register_click nm rep s)) = lit ''message error'' \<and>
         nameInput (register_click nm rep s) = nameInput s \<and>
         personnelIdInput (register_click nm rep s) = personnelIdInput s"
  using assms by (simp add: register_click_def showMessage_def lit_def)

theorem empty_name_sends_nothing_witness:
  "trim (nameInput blank_form) = [] \<and> personnelIdInput blank_form = lit ''E-17'' \<and>
   posted (register_click [] (Answer True NotJson) blank_form) = [] \<and>
   textContent (message_el (register_click [] (Answer True NotJson) blank_form)) =
     lit ''Please enter full name'' \<and>
   nameInput (register_click [] (Answer True NotJson) blank_form) = lit ''  '' \<and>
   personnelIdInput (register_click [] (Answer True NotJson) blank_form) = lit ''E-17''"
proof -
  have t: "trim (nameInput blank_form) = []"
    by (simp add: blank_form_def trim_blank)
  show ?thesis
    using empty_name_sends_nothing [OF t, of "[]" "Answer True NotJson"] t
    by (simp add: blank_form_def)
qed

lemma trim_ada: "trim (lit '' Ada '') = lit ''Ada''"
  by (simp add: trim_def lit_simps is_space_def)

text \<open>
  C8, as the code has it. When the server answers a registration with a status that is
  not ok and a JSON body whose \<open>detail\<close> is a non-empty string, the message shows exactly
  that string. When \<open>detail\<close> is empty or absent, or the body is not JSON, the fixed text
  \<open>Registration failed\<close> is shown; for the body \<open>null\<close> the text is the engine's own
  TypeError message. In every case the message carries the error class, exactly one form
  has been posted (no retry), and the inputs keep their values.
\<close>

theorem register_failure_message:
  assumes "trim (nameInput s) \<noteq> []"
  shows "(detail \<noteq> [] \<longrightarrow>
            textContent (message_el (register_click nm (Answer False (JsonValue (Some detail))) s)) = detail) \<and>
         textContent (message_el (register_click nm (Answer False (JsonValue (Some []))) s)) =
            lit ''Registration failed'' \<and>
         textContent (message_el (register_click nm (Answer False (JsonValue None)) s)) =
            lit ''Registration failed'' \<and>
         textContent (message_el (register_click nm (Answer False NotJson) s)) =
            lit ''Registration failed'' \<and>
         textContent (message_el (register_click nm (Answer False JsonNull) s)) = nm \<and>
         className (message_el (register_click nm (Answer False b) s)) = lit ''message error'' \<and>
         posted (register_click nm (Answer False b) s) =
            posted s @ [register_form (trim (nameInput s)) (trim (personnelIdInput s))] \<and>
         nameInput (register_click nm (Answer False b) s) = nameInput s \<and>
         personnelIdInput (register_click nm (Answer False b) s) = personnelIdInput s"
  using assms by (simp add: register_click_def showMessage_def failure_text_def Let_def lit_def)

theorem register_failure_message_witness:
  "trim (nameInput filled_form) \<noteq> [] \<and>
   textContent (message_el (register_click [] (Answer False (JsonValue (Some (lit ''duplicate name'')))) filled_form)) =
     lit ''duplicate name'' \<and>
   length (posted (register_click [] (Answer False (JsonValue (Some (lit ''duplicate name'')))) filled_form)) = 1"
proof -
  have t: "trim (nameInput filled_form) \<noteq> []"
    by (simp add: filled_form_def trim_ada) (simp add: lit_simps)
  have d: "lit ''duplicate name'' \<noteq> []"
    by (simp add: lit_simps)
  show ?thesis
    using register_failure_message [OF t, of "lit ''duplicate name''" "[]" "JsonValue (Some (lit ''duplicate name''))"] t d
    by (simp add: filled_form_def blank_form_def)
qed

text \<open>
  Against C8 as stated: a body \<open>{detail: ""}\<close> contains a detail field, yet the message
  shown is the fallback, not the (empty) detail text.
\<close>

theorem empty_detail_shows_fallback:
  "textContent (message_el (register_click [] (Answer False (JsonValue (Some []))) filled_form)) =
     lit ''Registration failed'' \<and>
   lit ''Registration failed'' \<noteq> []"
  by (simp add: register_click_def filled_form_def blank_form_def trim_ada showMessage_def
      failure_text_def Let_def) (simp add: lit_simps)

section \<open>The overlay: lemmas\<close>

lemma js_max_Fin [simp]: "js_max (Fin a) (Fin b) = Fin (max a b)"
  by (simp add: js_max_def max_def)

lemma js_min_Fin [simp]: "js_min (Fin a) (Fin b) = Fin (min a b)"
  by (auto simp add: js_min_def min_def)

lemma js_max_zero_nonneg: "js_max (Fin 0) x = Fin q \<Longrightarrow> 0 \<le> q"
  by (cases x) (auto simp: js_max_def split: if_splits)

section \<open>The canvas calls change only what they paint\<close>

lemma strokeRect_frame [simp]:
  "cwidth (strokeRect x y w h c) = cwidth c"
  "cheight (strokeRect x y w h c) = cheight c"
  "lineWidth (strokeRect x y w h c) = lineWidth c"
  "strokeStyle (strokeRect x y w h c) = strokeStyle c"
  "fillStyle (strokeRect x y w h c) = fillStyle c"
  "font_px (strokeRect x y w h c) = font_px c"
  "textBaseline (strokeRect x y w h c) = textBaseline c"
  by (induction x y w h c rule: strokeRect.induct; simp)+

lemma fillRect_frame [simp]:
  "cwidth (fillRect x y w h c) = cwidth c"
  "cheight (fillRect x y w h c) = cheight c"
  "lineWidth (fillRect x y w h c) = lineWidth c"
  "strokeStyle (fillRect x y w h c) = strokeStyle c"
  "fillStyle (fillRect x y w h c) = fillStyle c"
  "font_px (fillRect x y w h c) = font_px c"
  "textBaseline (fillRect x y w h c) = textBaseline c"
  by (induction x y w h c rule: fillRect.induct; simp)+

lemma fillText_frame [simp]:
  "cwidth (fillText s x y c) = cwidth c"
  "cheight (fillText s x y c) = cheight c"
  "lineWidth (fillText s x y c) = lineWidth c"
  "strokeStyle (fillText s x y c) = strokeStyle c"
  "fillStyle (fillText s x y c) = fillStyle c"
  "font_px (fillText s x y c) = font_px c"
  "textBaseline (fillText s x y c) = textBaseline c"
  by (induction s x y c rule: fillText.induct; simp)+

lemma set_font_frame [simp]:
  "cwidth (set_font n c) = cwidth c"
  "cheight (set_font n c) = cheight c"
  "lineWidth (set_font n c) = lineWidth c"
  "strokeStyle (set_font n c) = strokeStyle c"
  "fillStyle (set_font n c) = fillStyle c"
  "textBaseline (set_font n c) = textBaseline c"
  "ops (set_font n c) = ops c"
  by (cases n; simp)+

lemma set_lineWidth_frame [simp]:
  "cwidth (set_lineWidth n c) = cwidth c"
  "cheight (set_lineWidth n c) = cheight c"
  "ops (set_lineWidth n c) = ops c"
  by (cases n; simp)+

section \<open>Drawing the results\<close>

lemma draw_result_skip:
  "(\<And>a b c d. bbox r \<noteq> Some [a, b, c, d]) \<Longrightarrow> draw_result e sx sy lw r cv = cv"
  by (simp add: draw_result_def split: option.splits list.splits)

lemma draw_box_frame [simp]:
  "cwidth (draw_box e sx sy lw r a b c d cv) = cwidth cv"
  "cheight (draw_box e sx sy lw r a b c d cv) = cheight cv"
  "lineWidth (draw_box e sx sy lw r a b c d cv) = lineWidth cv"
  "strokeStyle (draw_box e sx sy lw r a b c d cv) = stroke_of r"
  by (simp_all add: draw_box_def draw_label_def Let_def split_beta)

lemma draw_result_strokeStyle:
  "bbox r = Some [a, b, c, d] \<Longrightarrow> strokeStyle (draw_result e sx sy lw r cv) = stroke_of r"
  by (simp add: draw_result_def)

lemma draw_result_cwidth [simp]: "cwidth (draw_result e sx sy lw r cv) = cwidth cv"
  by (simp add: draw_result_def split: option.splits list.splits)

lemma draw_result_cheight [simp]: "cheight (draw_result e sx sy lw r cv) = cheight cv"
  by (simp add: draw_result_def split: option.splits list.splits)

lemma draw_result_lineWidth [simp]: "lineWidth (draw_result e sx sy lw r cv) = lineWidth cv"
  by (simp add: draw_result_def split: option.splits list.splits)


lemma draw_results_cwidth [simp]: "cwidth (draw_results e sx sy lw rs cv) = cwidth cv"
  by (induction rs arbitrary: cv) simp_all

lemma draw_results_cheight [simp]: "cheight (draw_results e sx sy lw rs cv) = cheight cv"
  by (induction rs arbitrary: cv) simp_all

lemma draw_results_lineWidth [simp]: "lineWidth (draw_results e sx sy lw rs cv) = lineWidth cv"
  by (induction rs arbitrary: cv) simp_all

lemma draw_results_append:
  "draw_results e sx sy lw (xs @ ys) cv = draw_results e sx sy lw ys (draw_results e sx sy lw xs cv)"
  by (induction xs arbitrary: cv) simp_all

lemma match_video_size [simp]:
  "cwidth (match_video e c) = videoWidth e" "cheight (match_video e c) = videoHeight e"
  by (auto simp: match_video_def set_size_def)

lemma match_video_clear [simp]: "ops (match_video e (clearRect c)) = []"
  by (simp add: match_video_def set_size_def clearRect_def)

lemma show_first_frame [simp]:
  "draw (show_first e f s) = draw s"
  "msg (show_first e f s) = msg s"
  "recognizing (show_first e f s) = recognizing s"
  "recogTimer (show_first e f s) = recogTimer s"
  "timers (show_first e f s) = timers s"
  "next_handle (show_first e f s) = next_handle s"
  "inflight (show_first e f s) = inflight s"
  by (simp_all add: show_first_def show_thumb_def Let_def split: option.splits)

lemma show_nothing_frame [simp]:
  "msg (show_nothing s) = msg s"
  "recognizing (show_nothing s) = recognizing s"
  "recogTimer (show_nothing s) = recogTimer s"
  "timers (show_nothing s) = timers s"
  "next_handle (show_nothing s) = next_handle s"
  "inflight (show_nothing s) = inflight s"
  by (simp_all add: show_nothing_def)

lemma render_cases:
  "render e d s =
     (case results d of
        Some (r0 # rs) \<Rightarrow>
          (show_first e (first_match r0 rs) (s\<lparr>draw := clearRect (draw s)\<rparr>))
            \<lparr>draw := draw_results e
               (js_div (of_dim (videoWidth e)) (Fin (fst (source_size e d))))
               (js_div (of_dim (videoHeight e)) (Fin (snd (source_size e d))))
               (stroke_width (match_video e (clearRect (draw s)))) (r0 # rs)
               (set_lineWidth (stroke_width (match_video e (clearRect (draw s))))
                  (match_video e (clearRect (draw s))))\<rparr>
      | _ \<Rightarrow> show_nothing (s\<lparr>draw := clearRect (draw s)\<rparr>))"
  by (simp add: render_def Let_def split_beta del: draw_results.simps
      split: option.splits list.splits)

lemma render_frame [simp]:
  "msg (render e d s) = msg s"
  "recognizing (render e d s) = recognizing s"
  "recogTimer (render e d s) = recogTimer s"
  "timers (render e d s) = timers s"
  "next_handle (render e d s) = next_handle s"
  "inflight (render e d s) = inflight s"
  by (simp_all add: render_cases split: option.splits list.splits)

lemma render_draw:
  assumes "results d = Some (r0 # rs)" and "source_size e d = (ow, oh)"
  shows "draw (render e d s) =
         draw_results e (js_div (of_dim (videoWidth e)) (Fin ow)) (js_div (of_dim (videoHeight e)) (Fin oh))
           (stroke_width (match_video e (clearRect (draw s)))) (r0 # rs)
           (set_lineWidth (stroke_width (match_video e (clearRect (draw s))))
              (match_video e (clearRect (draw s))))"
  using assms by (simp add: render_cases del: draw_results.simps)

lemma render_size:
  assumes "results d = Some (r0 # rs)"
  shows "cwidth (draw (render e d s)) = videoWidth e \<and> cheight (draw (render e d s)) = videoHeight e"
  using assms by (simp add: render_cases del: draw_results.simps)

lemma render_ops_none:
  "results d = None \<or> results d = Some [] \<Longrightarrow> ops (draw (render e d s)) = []"
  by (auto simp: render_cases show_nothing_def clearRect_def)

lemma source_size_results [simp]: "source_size e (d\<lparr>results := x\<rparr>) = source_size e d"
  by (simp add: source_size_def)

text \<open>
  C6. A result whose \<open>bbox\<close> is absent, not an array, or not of length 4 is skipped by
  the callback: the canvas and its context are left exactly as they were (no rectangle, no
  label, no attribute changed), the callback returns normally, and the surface a response
  paints is the one the same response paints without that entry, so the other results
  are drawn as if it were not there.
\<close>

theorem malformed_bbox_skipped:
  assumes "case bbox r of None \<Rightarrow> True | Some xs \<Rightarrow> length xs \<noteq> 4"
  shows "draw_result e sx sy lw r cv = cv \<and>
         draw_results e sx sy lw (pre @ r # post) cv = draw_results e sx sy lw (pre @ post) cv \<and>
         ops (draw (render e (d\<lparr>results := Some (pre @ r # post)\<rparr>) s)) =
         ops (draw (render e (d\<lparr>results := Some (pre @ post)\<rparr>) s))"
proof -
  have skip: "draw_result e' sx' sy' lw' r cv' = cv'" for e' sx' sy' lw' cv'
    using assms by (intro draw_result_skip) (auto split: option.splits)
  have app: "draw_results e' sx' sy' lw' (pre @ r # post) cv' = draw_results e' sx' sy' lw' (pre @ post) cv'"
    for e' sx' sy' lw' cv'
    by (simp add: draw_results_append skip)
  have "ops (draw (render e (d\<lparr>results := Some (pre @ r # post)\<rparr>) s)) =
        ops (draw (render e (d\<lparr>results := Some (pre @ post)\<rparr>) s))"
  proof (cases "pre @ post")
    case Nil
    then have "pre = []" "post = []" by simp_all
    then show ?thesis
      using render_draw [of "d\<lparr>results := Some [r]\<rparr>" r "[]" e
          "fst (source_size e d)" "snd (source_size e d)" s]
      by (simp add: skip render_ops_none)
  next
    case (Cons a as)
    obtain b bs where l: "pre @ r # post = b # bs" by (cases pre) auto
    have 1: "draw (render e (d\<lparr>results := Some (pre @ r # post)\<rparr>) s) =
             draw_results e (js_div (of_dim (videoWidth e)) (Fin (fst (source_size e d))))
               (js_div (of_dim (videoHeight e)) (Fin (snd (source_size e d))))
               (stroke_width (match_video e (clearRect (draw s)))) (pre @ r # post)
               (set_lineWidth (stroke_width (match_video e (clearRect (draw s))))
                  (match_video e (clearRect (draw s))))"
      using render_draw [of "d\<lparr>results := Some (pre @ r # post)\<rparr>" b bs e
          "fst (source_size e d)" "snd (source_size e d)" s] l
      by (simp del: draw_results.simps)
    have 2: "draw (render e (d\<lparr>results := Some (pre @ post)\<rparr>) s) =
             draw_results e (js_div (of_dim (videoWidth e)) (Fin (fst (source_size e d))))
               (js_div (of_dim (videoHeight e)) (Fin (snd (source_size e d))))
               (stroke_width (match_video e (clearRect (draw s)))) (pre @ post)
               (set_lineWidth (stroke_width (match_video e (clearRect (draw s))))
                  (match_video e (clearRect (draw s))))"
      using render_draw [of "d\<lparr>results := Some (pre @ post)\<rparr>" a as e
          "fst (source_size e d)" "snd (source_size e d)" s] Cons
      by (simp del: draw_results.simps)
    show ?thesis unfolding 1 2 app ..
  qed
  then show ?thesis using skip app by simp
qed

theorem malformed_bbox_skipped_witness:
  "(case bbox broken of None \<Rightarrow> True | Some xs \<Rightarrow> length xs \<noteq> 4) \<and>
   draw_result example_env (Fin 2) (Fin 2) (Fin 3) broken (draw example_page) = draw example_page \<and>
   ops (draw (render example_env (example_data\<lparr>results := Some ([stranger] @ broken # [ada])\<rparr>) example_page)) =
   ops (draw (render example_env (example_data\<lparr>results := Some ([stranger] @ [ada])\<rparr>) example_page))"
proof -
  have b: "case bbox broken of None \<Rightarrow> True | Some xs \<Rightarrow> length xs \<noteq> 4"
    by (simp add: broken_def)
  show ?thesis
    using malformed_bbox_skipped [OF b, of example_env "Fin 2" "Fin 2" "Fin 3" "draw example_page"
        "[stranger]" "[ada]" example_data example_page] b
    by simp
qed

section \<open>The identity colour: properties\<close>

lemma unat_code_unit: "unat (ucast (c :: 16 word) :: 32 word) = unat c"
  by transfer (simp add: take_bit_nat_eq_self nat_take_bit_eq)

lemma hash_step:
  "to_uint32 (unat (w :: 32 word) * 31 + unat (c :: 16 word)) = unat (w * 31 + ucast c)"
  by (simp add: to_uint32_def unat_word_ariths unat_code_unit mod_simps)

lemma hash_loop_word:
  "hash_loop key i (unat (w :: 32 word)) =
     unat (foldl (\<lambda>acc c. acc * 31 + ucast c) w (drop i key))"
proof (induction key i "unat w" arbitrary: w rule: hash_loop.induct)
  case (1 key i)
  show ?case
  proof (cases "i < length key")
    case True
    have d: "drop i key = key ! i # drop (i + 1) key"
      using True by (simp add: Cons_nth_drop_Suc)
    have "hash_loop key i (unat w) = hash_loop key (i + 1) (unat (w * 31 + ucast (key ! i)))"
      using True by (subst hash_loop.simps) (simp add: hash_step)
    also have "\<dots> = unat (foldl (\<lambda>acc c. acc * 31 + ucast c) (w * 31 + ucast (key ! i)) (drop (i + 1) key))"
      using True by (intro 1) (simp_all add: hash_step)
    finally show ?thesis by (simp add: d)
  next
    case False
    then show ?thesis
      by (subst hash_loop.simps) simp
  qed
qed

lemma hash_loop_rolling: "hash_loop key 0 0 = unat (rolling_hash key)"
  using hash_loop_word [of key 0 0] by (simp add: rolling_hash_def)


text \<open>
  C2. For every identity key, the loop of \<open>colorForId\<close> computes the polynomial rolling
  hash (accumulator times 31 plus the character code, in unsigned 32-bit arithmetic), the
  hue is that hash modulo 360, below 360, and the colour is the \<open>hsl\<close> text of that hue
  at 80% saturation and 55% lightness: a function of the key alone. A result with a
  well-formed box is stroked in the colour of its identity key (name, a bar, and the
  personnel identifier if any) when it is flagged recognized, and in the fixed gray
  \<open>hsl(0, 0%, 75%)\<close> when it is not.
\<close>

theorem stroke_colour_from_hash:
  "hash_loop key 0 0 = unat (rolling_hash key) \<and>
   hue_of key = unat (rolling_hash key) mod 360 \<and> hue_of key < 360 \<and>
   colorForId key = lit ''hsl('' @ show_nat (unat (rolling_hash key) mod 360) @ lit '', 80%, 55%)'' \<and>
   (bbox r = Some [bx1, by1, bx2, by2] \<longrightarrow>
      strokeStyle (draw_result e sx sy lw r cv) =
        (if recognized r
         then colorForId (name r @ lit ''|'' @ (case personnel_id r of Some p \<Rightarrow> p | None \<Rightarrow> []))
         else lit ''hsl(0, 0%, 75%)''))"
proof -
  have k: "or_empty (personnel_id r) = (case personnel_id r of Some p \<Rightarrow> p | None \<Rightarrow> [])"
    by (cases "personnel_id r") simp_all
  show ?thesis
    by (simp add: hash_loop_rolling hue_of_def colorForId_def draw_result_strokeStyle
        stroke_of_def identityKey_def k)
qed

lemma hash_ada: "hash_loop (lit ''Ada|7'') 0 0 = 63105081"
  by (simp add: lit_simps to_uint32_def hash_loop.simps)

lemma colour_ada: "colorForId (lit ''Ada|7'') = lit ''hsl(321, 80%, 55%)''"
  by (simp add: colorForId_def hue_of_def hash_ada) (simp add: lit_simps digit_char_def show_nat.simps)

theorem stroke_colour_from_hash_witness:
  "hash_loop (lit ''Ada|7'') 0 0 = 63105081 \<and> unat (rolling_hash (lit ''Ada|7'')) = 63105081 \<and>
   hue_of (lit ''Ada|7'') = 321 \<and>
   colorForId (lit ''Ada|7'') = lit ''hsl(321, 80%, 55%)'' \<and>
   bbox ada = Some [100, 50, 300, 250] \<and>
   strokeStyle (draw_result example_env (Fin 2) (Fin 2) (Fin 3) ada (draw example_page)) =
     lit ''hsl(321, 80%, 55%)'' \<and>
   bbox stranger = Some [400, 300, 350, 200] \<and>
   strokeStyle (draw_result example_env (Fin 2) (Fin 2) (Fin 3) stranger (draw example_page)) =
     lit ''hsl(0, 0%, 75%)''"
proof -
  have n: "name ada @ lit ''|'' @ (case personnel_id ada of Some p \<Rightarrow> p | None \<Rightarrow> []) = lit ''Ada|7''"
    by (simp add: ada_def lit_def)
  have ba: "bbox ada = Some [100, 50, 300, 250]" "recognized ada"
    by (simp_all add: ada_def)
  have bs: "bbox stranger = Some [400, 300, 350, 200]" "\<not> recognized stranger"
    by (simp_all add: stranger_def)
  have h: "hue_of (lit ''Ada|7'') = 321"
    by (simp add: hue_of_def hash_ada)
  note a = stroke_colour_from_hash [of "lit ''Ada|7''" ada 100 50 300 250 example_env "Fin 2" "Fin 2"
      "Fin 3" "draw example_page"]
  note b = stroke_colour_from_hash [of "lit ''Ada|7''" stranger 400 300 350 200 example_env "Fin 2"
      "Fin 2" "Fin 3" "draw example_page"]
  have 1: "strokeStyle (draw_result example_env (Fin 2) (Fin 2) (Fin 3) ada (draw example_page)) =
             lit ''hsl(321, 80%, 55%)''"
    using a ba unfolding n by (simp add: colour_ada)
  have 2: "strokeStyle (draw_result example_env (Fin 2) (Fin 2) (Fin 3) stranger (draw example_page)) =
             lit ''hsl(0, 0%, 75%)''"
    using b bs by simp
  have 3: "unat (rolling_hash (lit ''Ada|7'')) = 63105081"
    using a hash_ada by simp
  show ?thesis
    using 1 2 3 ba bs h hash_ada colour_ada by simp
qed

section \<open>The side panel: properties\<close>

lemma find_first:
  "\<forall>x\<in>set pre. \<not> P x \<Longrightarrow> P r \<Longrightarrow> find P (pre @ r # post) = Some r"
  by (induction pre) simp_all

lemma find_none: "\<forall>x\<in>set xs. \<not> P x \<Longrightarrow> find P xs = None"
  by (induction xs) simp_all

lemma show_first_name:
  "currentName (show_first e f s) =
     (case personnel_id f of
        Some p \<Rightarrow> (if p \<noteq> [] then name f @ lit '' ['' @ p @ lit '']'' else name f)
      | None \<Rightarrow> name f)"
  by (simp add: show_first_def show_thumb_def Let_def split: option.splits)

lemma render_name:
  "results d = Some (r0 # rs) \<Longrightarrow>
   currentName (render e d s) = currentName (show_first e (first_match r0 rs) s)"
  by (simp add: render_cases show_first_name del: draw_results.simps)

text \<open>
  C9. For a non-empty result list, written as \<open>pre @ r # post\<close> where either \<open>r\<close> is
  the first result flagged recognized, or no result is flagged and \<open>r\<close> is the first of
  the list, the side panel's name shows \<open>r\<close>: its name followed by the personnel
  identifier in brackets exactly when that identifier is present and truthy, and its bare
  name otherwise.
\<close>

theorem side_panel_shows_first_recognized:
  assumes "results d = Some (pre @ r # post)"
    and "\<forall>x\<in>set pre. \<not> recognized x"
    and "recognized r \<or> (pre = [] \<and> (\<forall>x\<in>set post. \<not> recognized x))"
  shows "(truthy (personnel_id r) \<longrightarrow>
            currentName (render e d s) = name r @ lit '' ['' @ the (personnel_id r) @ lit '']'') \<and>
         (\<not> truthy (personnel_id r) \<longrightarrow> currentName (render e d s) = name r)"
proof -
  obtain r0 rs where l: "pre @ r # post = r0 # rs" by (cases pre) auto
  have f: "first_match r0 rs = r"
  proof (cases "recognized r")
    case True
    then show ?thesis
      using find_first [of pre recognized r post] assms(2) l by (simp add: first_match_def)
  next
    case False
    then have p: "pre = []" and n: "\<forall>x\<in>set post. \<not> recognized x"
      using assms(3) by simp_all
    then have "find recognized (r0 # rs) = None"
      using find_none [of "r # post" recognized] False l by simp
    then show ?thesis using p l by (simp add: first_match_def)
  qed
  have "currentName (render e d s) = currentName (show_first e r s)"
    using render_name [of d r0 rs e s] assms(1) l f by simp
  then show ?thesis
    by (cases "personnel_id r") (simp_all add: show_first_name)
qed

theorem side_panel_shows_first_recognized_witness:
  "results example_data = Some ([stranger, broken] @ ada # []) \<and>
   \<not> recognized stranger \<and> \<not> recognized broken \<and> recognized ada \<and>
   truthy (personnel_id ada) \<and>
   currentName (render example_env example_data example_page) = lit ''Ada [7]''"
proof -
  have r: "results example_data = Some ([stranger, broken] @ ada # [])"
    by (simp add: example_data_def)
  have n: "\<forall>x\<in>set [stranger, broken]. \<not> recognized x"
    by (simp add: stranger_def broken_def)
  have a: "recognized ada \<or> ([stranger, broken] = [] \<and> (\<forall>x\<in>set []. \<not> recognized x))"
    by (simp add: ada_def)
  have t: "truthy (personnel_id ada)"
    by (simp add: ada_def lit_simps)
  have v: "name ada @ lit '' ['' @ the (personnel_id ada) @ lit '']'' = lit ''Ada [7]''"
    by (simp add: ada_def lit_def)
  show ?thesis
    using side_panel_shows_first_recognized [OF r n a, of example_env example_page] r n a t
    unfolding v by (simp add: ada_def)
qed

section \<open>The polling loop: properties\<close>

lemma schedule_next_frame [simp]:
  "msg (schedule_next s) = msg s"
  "recognizing (schedule_next s) = recognizing s"
  "inflight (schedule_next s) = inflight s"
  "draw (schedule_next s) = draw s"
  "currentName (schedule_next s) = currentName s"
  "currentScore (schedule_next s) = currentScore s"
  "thumbWrap (schedule_next s) = thumbWrap s"
  "lastFace (schedule_next s) = lastFace s"
  "lastFaceTime (schedule_next s) = lastFaceTime s"
  "recogTimer (schedule_next s) = Some (next_handle s)"
  "timers (schedule_next s) = timers s @ [(next_handle s, 1000)]"
  "next_handle (schedule_next s) = next_handle s + 1"
  by (simp_all add: schedule_next_def)

lemma finish_frame [simp]:
  "msg (loopRecognize_finish e out s) = msg s"
  "recognizing (loopRecognize_finish e out s) = recognizing s"
  "recogTimer (loopRecognize_finish e out s) = Some (next_handle s)"
  "timers (loopRecognize_finish e out s) = timers s @ [(next_handle s, 1000)]"
  "next_handle (loopRecognize_finish e out s) = next_handle s + 1"
  "inflight (loopRecognize_finish e out s) = inflight s - 1"
  by (simp_all add: loopRecognize_finish_def Let_def split: outcome.splits option.splits)

lemma finish_rejected:
  assumes "out = CaptureFailed \<or> out = FetchRejected \<or> out = JsonRejected"
  shows "loopRecognize_finish e out s = schedule_next (s\<lparr>inflight := inflight s - 1\<rparr>)"
  using assms by (auto simp: loopRecognize_finish_def)

lemma finish_parsed:
  "loopRecognize_finish e (Parsed (Some d)) s =
   schedule_next ((render e d s)\<lparr>inflight := inflight s - 1\<rparr>)"
  by (simp add: loopRecognize_finish_def)

text \<open>
  C4. Whenever a cycle in flight settles, whatever its outcome (a failed capture, a
  rejected request, a body that does not parse, a null body, or a parsed body with or
  without detections), the \<open>message\<close> element is left untouched, and exactly one new
  timeout of 1000 ms is scheduled, its handle stored in \<open>recogTimer\<close>; while
  recognition stays on, that timeout's firing puts the next cycle in flight.
\<close>

theorem cycle_always_reschedules:
  assumes "0 < inflight s"
  shows "\<exists>s'. step (CycleDone e out) s = Some s' \<and> msg s' = msg s \<and>
           recognizing s' = recognizing s \<and>
           recogTimer s' = Some (next_handle s) \<and>
           timers s' = timers s @ [(next_handle s, 1000)] \<and>
           (recognizing s \<longrightarrow>
              (\<exists>s''. step (TimerFire (next_handle s)) s' = Some s'' \<and>
                     inflight s'' = inflight s' + 1))"
  using assms by (simp add: loopRecognize_start_def image_iff)

theorem cycle_always_reschedules_witness:
  "0 < inflight (toggle_click example_page) \<and> recognizing (toggle_click example_page) \<and>
   map_option recogTimer (step (CycleDone example_env FetchRejected) (toggle_click example_page)) =
     Some (Some 1) \<and>
   map_option timers (step (CycleDone example_env FetchRejected) (toggle_click example_page)) =
     Some [(1, 1000)] \<and>
   map_option msg (step (CycleDone example_env FetchRejected) (toggle_click example_page)) =
     Some (msg example_page)"
proof -
  have i: "0 < inflight (toggle_click example_page)"
    by (simp add: toggle_click_def example_page_def loopRecognize_start_def Let_def)
  have f: "recognizing (toggle_click example_page)" "next_handle (toggle_click example_page) = 1"
    "timers (toggle_click example_page) = []" "msg (toggle_click example_page) = msg example_page"
    by (simp_all add: toggle_click_def example_page_def loopRecognize_start_def Let_def)
  show ?thesis
    using cycle_always_reschedules [OF i, of example_env FetchRejected] i f
    by auto
qed

text \<open>
  C5, as the code has it. When a cycle's parsed body has no result list or an empty one,
  the side panel is cleared (the name is the dash, the score text is empty, the thumbnail
  wrapper is hidden, the thumbnail has no source, its time text is empty) and the surface
  is cleared. When a cycle fails (capture, request or parsing rejected), the side panel
  and the surface are left exactly as they were.
\<close>

theorem empty_results_clear_panel:
  "(results d = None \<or> results d = Some [] \<longrightarrow>
      currentName (loopRecognize_finish e (Parsed (Some d)) s) = lit ''-'' \<and>
      currentScore (loopRecognize_finish e (Parsed (Some d)) s) = [] \<and>
      thumbWrap (loopRecognize_finish e (Parsed (Some d)) s) = map_option (\<lambda>_. True) (thumbWrap s) \<and>
      lastFace (loopRecognize_finish e (Parsed (Some d)) s) = map_option (\<lambda>_. None) (lastFace s) \<and>
      lastFaceTime (loopRecognize_finish e (Parsed (Some d)) s) = map_option (\<lambda>_. []) (lastFaceTime s) \<and>
      ops (draw (loopRecognize_finish e (Parsed (Some d)) s)) = []) \<and>
   (out = CaptureFailed \<or> out = FetchRejected \<or> out = JsonRejected \<longrightarrow>
      currentName (loopRecognize_finish e out s) = currentName s \<and>
      currentScore (loopRecognize_finish e out s) = currentScore s \<and>
      thumbWrap (loopRecognize_finish e out s) = thumbWrap s \<and>
      lastFace (loopRecognize_finish e out s) = lastFace s \<and>
      lastFaceTime (loopRecognize_finish e out s) = lastFaceTime s \<and>
      draw (loopRecognize_finish e out s) = draw s)"
proof -
  have a: "results d = None \<or> results d = Some [] \<Longrightarrow>
           render e d s = show_nothing (s\<lparr>draw := clearRect (draw s)\<rparr>)"
    by (auto simp: render_cases)
  show ?thesis
    by (auto simp: finish_rejected finish_parsed a show_nothing_def clearRect_def)
qed

lemma render_thumb:
  "results d = Some (r0 # rs) \<Longrightarrow>
   thumbWrap (render e d s) = thumbWrap (show_first e (first_match r0 rs) s)"
  by (simp add: render_cases show_first_def show_thumb_def Let_def del: draw_results.simps
      split: option.splits)

lemma show_first_no_url: "face_image_url f = None \<Longrightarrow> thumbWrap (show_first e f s) = thumbWrap s"
  by (simp add: show_first_def Let_def)

lemma first_match_example: "first_match stranger [broken, ada] = ada"
  by (simp add: first_match_def stranger_def broken_def ada_def)

lemma shown_ada:
  "currentName (loopRecognize_finish example_env (Parsed (Some example_data)) example_page) =
     lit ''Ada [7]''"
proof -
  have r: "results example_data = Some (stranger # [broken, ada])"
    by (simp add: example_data_def)
  show ?thesis
    by (simp add: finish_parsed render_name [OF r] first_match_example show_first_name)
      (simp add: ada_def lit_def)
qed

text \<open>
  Against C5 as stated: after a cycle that showed Ada, a cycle whose request is rejected
  leaves the name on the side panel; it is not reset to the dash.
\<close>

theorem failed_cycle_keeps_panel:
  "currentName (loopRecognize_finish example_env FetchRejected
      (loopRecognize_finish example_env (Parsed (Some example_data)) example_page)) = lit ''Ada [7]'' \<and>
   lit ''Ada [7]'' \<noteq> lit ''-''"
  by (simp add: finish_rejected shown_ada) (simp add: lit_simps)

theorem empty_results_clear_panel_witness:
  "results (example_data\<lparr>results := Some []\<rparr>) = Some [] \<and>
   currentName (loopRecognize_finish example_env (Parsed (Some (example_data\<lparr>results := Some []\<rparr>)))
      (loopRecognize_finish example_env (Parsed (Some example_data)) example_page)) = lit ''-'' \<and>
   thumbWrap (loopRecognize_finish example_env (Parsed (Some (example_data\<lparr>results := Some []\<rparr>)))
      (loopRecognize_finish example_env (Parsed (Some example_data)) example_page)) = Some True \<and>
   ops (draw (loopRecognize_finish example_env (Parsed (Some (example_data\<lparr>results := Some []\<rparr>)))
      (loopRecognize_finish example_env (Parsed (Some example_data)) example_page))) = [] \<and>
   currentName (loopRecognize_finish example_env JsonRejected
      (loopRecognize_finish example_env (Parsed (Some example_data)) example_page)) = lit ''Ada [7]''"
proof -
  have r: "results example_data = Some (stranger # [broken, ada])"
    by (simp add: example_data_def)
  have u: "face_image_url ada = None"
    by (simp add: ada_def)
  have t: "thumbWrap (loopRecognize_finish example_env (Parsed (Some example_data)) example_page) = Some True"
    by (simp add: finish_parsed render_thumb [OF r] first_match_example show_first_no_url [OF u]
        example_page_def)
  show ?thesis
    using empty_results_clear_panel [of "example_data\<lparr>results := Some []\<rparr>" example_env
        "loopRecognize_finish example_env (Parsed (Some example_data)) example_page" JsonRejected]
      shown_ada t
    by simp
qed

section \<open>Rounding to a double\<close>

lemma round_even_near:
  assumes "of_int n - 1 / 2 < m" and "m < of_int n + 1 / 2"
  shows "round_even m = n"
proof (cases "of_int n \<le> m")
  case True
  then have f: "\<lfloor>m\<rfloor> = n" using assms by linarith
  show ?thesis using assms True by (simp add: round_even_def f Let_def)
next
  case False
  then have f: "\<lfloor>m\<rfloor> = n - 1" using assms by linarith
  show ?thesis using assms False by (simp add: round_even_def f Let_def)
qed

lemma to_double_pos:
  assumes "0 < q" and "exponent q = e"
    and "of_int n - 1 / 2 < q / ulp e" and "q / ulp e < of_int n + 1 / 2"
    and "of_int n * ulp e < 2 ^ 1024" and "p = of_int n * ulp e"
  shows "to_double q = Fin p"
  using assms by (simp add: to_double_def Let_def round_even_near [OF assms(3,4)])


lemma up_exp_spec: "2 ^ n \<le> q \<Longrightarrow> q < 2 ^ Suc n \<Longrightarrow> k + n \<le> 1024 \<Longrightarrow> up_exp k q = k + n"
proof (induction n arbitrary: k q)
  case 0
  then show ?case by (simp add: up_exp.simps)
next
  case (Suc n)
  have "up_exp (k + 1) (q / 2) = (k + 1) + n"
    using Suc.prems by (intro Suc.IH) simp_all
  moreover have "2 \<le> q"
  proof -
    have "(2::rat) \<le> 2 ^ Suc n" by simp
    then show ?thesis using Suc.prems(1) by linarith
  qed
  ultimately show ?case
    using Suc.prems(3) by (subst up_exp.simps) simp
qed

lemma to_double_nat:
  assumes "k < 2 ^ 53"
  shows "to_double (of_nat k) = Fin (of_nat k)"
proof (cases "k = 0")
  case True
  then show ?thesis by (simp add: to_double_def)
next
  case False
  then obtain n where n: "2 ^ n \<le> k" "k < 2 ^ (n + 1)"
    using ex_power_ivl1 [of 2 k] by auto
  have n52: "n \<le> 52"
  proof (rule ccontr)
    assume "\<not> n \<le> 52"
    then have "(2::nat) ^ 53 \<le> 2 ^ n" by (intro power_increasing) simp_all
    then show False using n(1) assms by linarith
  qed
  have q: "(2::rat) ^ n \<le> of_nat k" "rat_of_nat k < 2 ^ Suc n"
    using n by (metis of_nat_le_iff of_nat_numeral of_nat_power, metis Suc_eq_plus1 of_nat_less_iff of_nat_numeral of_nat_power)
  have one: "(1::rat) \<le> of_nat k" using False by simp
  have e: "exponent (rat_of_nat k) = int n"
    using up_exp_spec [OF q, of 0] n52 one by (simp add: exponent_def)
  have d: "nat (52 - int n) = 52 - n"
    by arith
  have u: "ulp (int n) = 1 / 2 ^ (52 - n)"
    using n52 by (cases "n = 52") (simp_all add: ulp_def d)
  have m: "rat_of_nat k / ulp (int n) = of_int (int (k * 2 ^ (52 - n)))"
    by (simp add: u)
  have r: "round_even (rat_of_nat k / ulp (int n)) = int (k * 2 ^ (52 - n))"
    unfolding m by (rule round_even_near) simp_all
  have b: "rat_of_nat k < 2 ^ 1024"
  proof -
    have "rat_of_nat k < 2 ^ 53" using assms by (metis of_nat_less_iff of_nat_numeral of_nat_power)
    also have "(2::rat) ^ 53 \<le> 2 ^ 1024" by (intro power_increasing) simp_all
    finally show ?thesis .
  qed
  show ?thesis
    using False b by (simp add: to_double_def Let_def e r) (simp add: u)
qed

lemma to_double_numeral:
  "numeral k < (2::nat) ^ 53 \<Longrightarrow> to_double (numeral k) = Fin (numeral k)"
  using to_double_nat [of "numeral k"] by simp






section \<open>The overlay: what a response paints\<close>

lemma js_max_lower: "js_max (Fin a) x = Fin q \<Longrightarrow> a \<le> q"
  by (cases x) (auto simp: js_max_def split: if_splits)

lemma strokeRect_keeps: "set (ops c) \<subseteq> set (ops (strokeRect x y w h c))"
  by (induction x y w h c rule: strokeRect.induct) auto

lemma fillRect_keeps: "set (ops c) \<subseteq> set (ops (fillRect x y w h c))"
  by (induction x y w h c rule: fillRect.induct) auto

lemma fillText_keeps: "set (ops c) \<subseteq> set (ops (fillText t x y c))"
  by (induction t x y c rule: fillText.induct) auto

lemma draw_label_keeps: "set (ops c) \<subseteq> set (ops (draw_label e lw r x1 y1 h c))"
proof -
  have "set (ops c) \<subseteq> set (ops (fillRect tx ty tw th (c'\<lparr>fillStyle := f\<rparr>)))"
    if "ops c' = ops c" for tx ty tw th c' f
    using fillRect_keeps [of "c'\<lparr>fillStyle := f\<rparr>" tx ty tw th] that by simp
  then have "set (ops c) \<subseteq> set (ops (fillText t x y ((fillRect tx ty tw th (c'\<lparr>fillStyle := f\<rparr>))\<lparr>fillStyle := g\<rparr>)))"
    if "ops c' = ops c" for tx ty tw th c' f t x y g
    using fillText_keeps [of "(fillRect tx ty tw th (c'\<lparr>fillStyle := f\<rparr>))\<lparr>fillStyle := g\<rparr>" t x y] that
    by fastforce
  then show ?thesis
    by (simp add: draw_label_def Let_def split_beta)
qed


lemma draw_box_stroke:
  assumes "js_max (Fin 0) (js_floor (js_mul (Fin bx1) sx)) = Fin x1"
    and "js_max (Fin 0) (js_floor (js_mul (Fin by1) sy)) = Fin y1"
    and "js_max (Fin 0) (js_floor (js_mul (Fin bx2) sx)) = Fin x2"
    and "js_max (Fin 0) (js_floor (js_mul (Fin by2) sy)) = Fin y2"
    and "js_max (Fin 0) (js_sub (Fin x2) (Fin x1)) = Fin w"
    and "js_max (Fin 0) (js_sub (Fin y2) (Fin y1)) = Fin h"
  shows "StrokeRect (stroke_of r) (lineWidth c) x1 y1 w h
           \<in> set (ops (draw_box e sx sy lw r bx1 by1 bx2 by2 c))"
  unfolding draw_box_def Let_def assms
  by (rule subsetD [OF draw_label_keeps]) simp


lemma label_rect_finite:
  assumes "js_add (Fin m) (Fin 10) = Fin tw"
    and "js_max (Fin 18) (js_round (js_add (Fin (of_int \<lfloor>fs\<rfloor>)) (Fin 6))) = Fin th"
    and "js_sub (js_sub (Fin y1) (Fin th)) (Fin 4) = Fin t_above"
    and "js_add (Fin y1) (Fin l) = Fin t_below"
    and "js_sub (js_sub (of_dim width) (Fin tw)) (Fin 2) = Fin slack"
  shows "label_rect (Fin l) (Fin x1) (Fin y1) width fs m =
           (Fin (max 0 (min slack x1)), Fin (if t_above < 0 then t_below else t_above), Fin tw, Fin th)"
  unfolding label_rect_def Let_def assms by simp

lemma draw_result_keeps: "set (ops c) \<subseteq> set (ops (draw_result e sx sy lw r c))"
proof -
  have "set (ops c) \<subseteq> set (ops (draw_box e sx sy lw r a b x y c))" for a b x y
    unfolding draw_box_def Let_def
    by (rule subset_trans [OF _ draw_label_keeps]) (use strokeRect_keeps in fastforce)
  then show ?thesis
    by (simp add: draw_result_def split: option.splits list.splits)
qed

lemma draw_results_keeps: "set (ops c) \<subseteq> set (ops (draw_results e sx sy lw rs c))"
proof (induction rs arbitrary: c)
  case Nil
  show ?case by simp
next
  case (Cons r rs)
  show ?case
    using draw_result_keeps [of c e sx sy lw r] Cons [of "draw_result e sx sy lw r c"] by simp
qed

lemma draw_results_paints:
  assumes "r \<in> set rs"
    and "\<And>c. cwidth c = cwidth cv \<Longrightarrow> lineWidth c = lineWidth cv \<Longrightarrow>
           x \<in> set (ops (draw_result e sx sy lw r c))"
  shows "x \<in> set (ops (draw_results e sx sy lw rs cv))"
  using assms
proof (induction rs arbitrary: cv)
  case Nil
  then show ?case by simp
next
  case (Cons a rs)
  show ?case
  proof (cases "r = a")
    case True
    have "x \<in> set (ops (draw_result e sx sy lw a cv))"
      using Cons.prems(2) [of cv] True by simp
    then show ?thesis
      using draw_results_keeps [of "draw_result e sx sy lw a cv" e sx sy lw rs] by auto
  next
    case False
    then have "r \<in> set rs" using Cons.prems(1) by simp
    then have "x \<in> set (ops (draw_results e sx sy lw rs (draw_result e sx sy lw a cv)))"
      by (rule Cons.IH) (simp add: Cons.prems(2))
    then show ?thesis by simp
  qed
qed

lemma stroke_width_size:
  "cwidth a = cwidth b \<Longrightarrow> cheight a = cheight b \<Longrightarrow> stroke_width a = stroke_width b"
  by (simp add: stroke_width_def)

lemma render_paints:
  assumes "results d = Some rs" and "r \<in> set rs" and "source_size e d = (Ow, Oh)"
    and "\<And>c. cwidth c = cwidth (draw (render e d s)) \<Longrightarrow>
              lineWidth c = lineWidth (draw (render e d s)) \<Longrightarrow>
           x \<in> set (ops (draw_result e
                  (js_div (of_dim (cwidth (draw (render e d s)))) (Fin Ow))
                  (js_div (of_dim (cheight (draw (render e d s)))) (Fin Oh))
                  (stroke_width (draw (render e d s))) r c))"
  shows "x \<in> set (ops (draw (render e d s)))"
proof -
  obtain r0 rs' where rs: "rs = r0 # rs'" using assms(2) by (cases rs) auto
  have res: "results d = Some (r0 # rs')" using assms(1) rs by simp
  define mv where "mv = match_video e (clearRect (draw s))"
  have dr: "draw (render e d s) =
        draw_results e (js_div (of_dim (videoWidth e)) (Fin Ow)) (js_div (of_dim (videoHeight e)) (Fin Oh))
          (stroke_width mv) rs (set_lineWidth (stroke_width mv) mv)"
    unfolding mv_def rs by (rule render_draw [OF res assms(3)])
  have sz: "cwidth (draw (render e d s)) = videoWidth e" "cheight (draw (render e d s)) = videoHeight e"
    using render_size [OF res, of e s] by simp_all
  have sw: "stroke_width (draw (render e d s)) = stroke_width mv"
    by (rule stroke_width_size) (simp_all add: sz mv_def)
  have lw: "lineWidth (draw (render e d s)) = lineWidth (set_lineWidth (stroke_width mv) mv)"
    unfolding dr by simp
  show ?thesis
    unfolding dr
  proof (rule draw_results_paints [OF assms(2)])
    fix c :: canvas
    assume c: "cwidth c = cwidth (set_lineWidth (stroke_width mv) mv)"
      "lineWidth c = lineWidth (set_lineWidth (stroke_width mv) mv)"
    have "cwidth c = cwidth (draw (render e d s))"
      using c(1) by (simp add: sz mv_def)
    moreover have "lineWidth c = lineWidth (draw (render e d s))"
      using c(2) lw by simp
    ultimately show "x \<in> set (ops (draw_result e (js_div (of_dim (videoWidth e)) (Fin Ow))
          (js_div (of_dim (videoHeight e)) (Fin Oh)) (stroke_width mv) r c))"
      using assms(4) [of c] unfolding sz sw by simp
  qed
qed

lemma strokeRect_nonneg:
  "list_all nonneg_rect (ops c) \<Longrightarrow>
   list_all nonneg_rect
     (ops (strokeRect (js_max (Fin 0) a) (js_max (Fin 0) b) (js_max (Fin 0) w) (js_max (Fin 0) h) c))"
  by (cases "js_max (Fin 0) a"; cases "js_max (Fin 0) b"; cases "js_max (Fin 0) w";
      cases "js_max (Fin 0) h") (auto dest: js_max_zero_nonneg)

lemma fillRect_nonneg [simp]:
  "list_all nonneg_rect (ops (fillRect x y w h c)) = list_all nonneg_rect (ops c)"
  by (induction x y w h c rule: fillRect.induct) simp_all

lemma fillText_nonneg [simp]:
  "list_all nonneg_rect (ops (fillText s x y c)) = list_all nonneg_rect (ops c)"
  by (induction s x y c rule: fillText.induct) simp_all

lemma draw_label_nonneg:
  "list_all nonneg_rect (ops (draw_label e lw r x1 y1 h c)) = list_all nonneg_rect (ops c)"
  by (simp add: draw_label_def Let_def split_beta)

lemma draw_box_nonneg:
  "list_all nonneg_rect (ops cv) \<Longrightarrow>
   list_all nonneg_rect (ops (draw_box e sx sy lw r a b c d cv))"
  unfolding draw_box_def Let_def draw_label_nonneg
  by (rule strokeRect_nonneg) simp

lemma draw_result_nonneg:
  "list_all nonneg_rect (ops cv) \<Longrightarrow> list_all nonneg_rect (ops (draw_result e sx sy lw r cv))"
  by (simp add: draw_result_def draw_box_nonneg split: option.splits list.splits)

lemma draw_results_nonneg:
  "list_all nonneg_rect (ops cv) \<Longrightarrow> list_all nonneg_rect (ops (draw_results e sx sy lw rs cv))"
  by (induction rs arbitrary: cv) (simp_all add: draw_result_nonneg)

lemma render_nonneg: "list_all nonneg_rect (ops (draw (render e d s)))"
proof (cases "\<exists>r0 rs. results d = Some (r0 # rs)")
  case True
  then obtain r0 rs where r: "results d = Some (r0 # rs)" by blast
  show ?thesis
    unfolding render_draw [OF r surjective_pairing]
    by (rule draw_results_nonneg) simp
next
  case False
  have "results d = None \<or> results d = Some []"
  proof (cases "results d")
    case None
    then show ?thesis by simp
  next
    case (Some a)
    then show ?thesis using False by (cases a) auto
  qed
  then show ?thesis by (simp add: render_ops_none)
qed


lemma js_sub_exact: "representable (a - b) \<Longrightarrow> js_sub (Fin a) (Fin b) = Fin (a - b)"
  by (simp add: js_sub_def representable_def)


lemma scaled_exact:
  assumes "js_mul (Fin b) (js_div (of_dim S) (Fin O')) = Fin p" and "O' \<noteq> 0"
    and "representable (of_nat S / O')" and "representable (b * (of_nat S / O'))"
  shows "p = b * of_nat S / O'"
  using assms by (simp add: of_dim_def representable_def)

lemma box_stroked:
  assumes "results d = Some rs" and "r \<in> set rs" and "bbox r = Some [bx1, by1, bx2, by2]"
    and "source_size e d = (Ow, Oh)"
    and "Sw = cwidth (draw (render e d s))" and "Sh = cheight (draw (render e d s))"
    and "js_mul (Fin bx1) (js_div (of_dim Sw) (Fin Ow)) = Fin px1"
    and "js_mul (Fin by1) (js_div (of_dim Sh) (Fin Oh)) = Fin py1"
    and "js_mul (Fin bx2) (js_div (of_dim Sw) (Fin Ow)) = Fin px2"
    and "js_mul (Fin by2) (js_div (of_dim Sh) (Fin Oh)) = Fin py2"
    and "x1 = max 0 (of_int \<lfloor>px1\<rfloor>)" and "y1 = max 0 (of_int \<lfloor>py1\<rfloor>)"
    and "x2 = max 0 (of_int \<lfloor>px2\<rfloor>)" and "y2 = max 0 (of_int \<lfloor>py2\<rfloor>)"
    and "js_sub (Fin x2) (Fin x1) = Fin dw" and "js_sub (Fin y2) (Fin y1) = Fin dh"
  shows "StrokeRect (stroke_of r) (lineWidth (draw (render e d s))) x1 y1 (max 0 dw) (max 0 dh)
           \<in> set (ops (draw (render e d s)))"
proof (rule render_paints [OF assms(1,2,4)])
  fix c :: canvas
  assume c: "cwidth c = cwidth (draw (render e d s))" "lineWidth c = lineWidth (draw (render e d s))"
  have "StrokeRect (stroke_of r) (lineWidth c) x1 y1 (max 0 dw) (max 0 dh)
          \<in> set (ops (draw_box e (js_div (of_dim Sw) (Fin Ow)) (js_div (of_dim Sh) (Fin Oh))
                 (stroke_width (draw (render e d s))) r bx1 by1 bx2 by2 c))"
  proof (rule draw_box_stroke)
    show "js_max (Fin 0) (js_floor (js_mul (Fin bx1) (js_div (of_dim Sw) (Fin Ow)))) = Fin x1"
      by (simp add: assms(7,11))
    show "js_max (Fin 0) (js_floor (js_mul (Fin by1) (js_div (of_dim Sh) (Fin Oh)))) = Fin y1"
      by (simp add: assms(8,12))
    show "js_max (Fin 0) (js_floor (js_mul (Fin bx2) (js_div (of_dim Sw) (Fin Ow)))) = Fin x2"
      by (simp add: assms(9,13))
    show "js_max (Fin 0) (js_floor (js_mul (Fin by2) (js_div (of_dim Sh) (Fin Oh)))) = Fin y2"
      by (simp add: assms(10,14))
    show "js_max (Fin 0) (js_sub (Fin x2) (Fin x1)) = Fin (max 0 dw)"
      by (simp add: assms(15))
    show "js_max (Fin 0) (js_sub (Fin y2) (Fin y1)) = Fin (max 0 dh)"
      by (simp add: assms(16))
  qed
  then show "StrokeRect (stroke_of r) (lineWidth (draw (render e d s))) x1 y1 (max 0 dw) (max 0 dh)
          \<in> set (ops (draw_result e (js_div (of_dim (cwidth (draw (render e d s)))) (Fin Ow))
                 (js_div (of_dim (cheight (draw (render e d s)))) (Fin Oh))
                 (stroke_width (draw (render e d s))) r c))"
    using assms(3,5,6) c(2) by (simp add: draw_result_def)
qed

text \<open>
  C1, as the page computes it. Let a response with source size \<open>(Ow, Oh)\<close> be painted on
  the surface, whose size \<open>(Sw, Sh)\<close> is then the video's. The page works in doubles: the
  scale \<open>Sw / Ow\<close> (respectively \<open>Sh / Oh\<close>) is rounded to a double, and each product of a
  coordinate with the scale is rounded again. For every result of the list with a
  four-element box whose four products \<open>px1\<close>, \<open>py1\<close>, \<open>px2\<close>, \<open>py2\<close> are finite, each
  coordinate is mapped to the floor of its product, clamped at 0, and the rectangle
  stroked for it starts at the mapped first corner, with the clamped difference of the
  mapped corners as width and height. Every rectangle stroked on the surface has
  non-negative corner, width and height, inverted corners included. Where the scale and
  a product are representable, that is, not rounded, the mapped coordinate is the floor of
  \<open>coordinate * Sw / Ow\<close> (respectively \<open>Sh / Oh\<close>), clamped at 0; where the difference of
  two mapped corners is representable, it is not rounded either.
\<close>

theorem bbox_mapping:
  assumes "results d = Some rs" and "r \<in> set rs" and "bbox r = Some [bx1, by1, bx2, by2]"
    and "source_size e d = (Ow, Oh)"
    and "Sw = cwidth (draw (render e d s))" and "Sh = cheight (draw (render e d s))"
    and "js_mul (Fin bx1) (js_div (of_dim Sw) (Fin Ow)) = Fin px1"
    and "js_mul (Fin by1) (js_div (of_dim Sh) (Fin Oh)) = Fin py1"
    and "js_mul (Fin bx2) (js_div (of_dim Sw) (Fin Ow)) = Fin px2"
    and "js_mul (Fin by2) (js_div (of_dim Sh) (Fin Oh)) = Fin py2"
    and "x1 = max 0 (of_int \<lfloor>px1\<rfloor>)" and "y1 = max 0 (of_int \<lfloor>py1\<rfloor>)"
    and "x2 = max 0 (of_int \<lfloor>px2\<rfloor>)" and "y2 = max 0 (of_int \<lfloor>py2\<rfloor>)"
    and "js_sub (Fin x2) (Fin x1) = Fin dw" and "js_sub (Fin y2) (Fin y1) = Fin dh"
  shows "StrokeRect (stroke_of r) (lineWidth (draw (render e d s))) x1 y1 (max 0 dw) (max 0 dh)
           \<in> set (ops (draw (render e d s))) \<and>
         (\<forall>op \<in> set (ops (draw (render e d s))). nonneg_rect op) \<and>
         (Ow \<noteq> 0 \<and> representable (of_nat Sw / Ow) \<longrightarrow>
            (representable (bx1 * (of_nat Sw / Ow)) \<longrightarrow> x1 = max 0 (of_int \<lfloor>bx1 * of_nat Sw / Ow\<rfloor>)) \<and>
            (representable (bx2 * (of_nat Sw / Ow)) \<longrightarrow> x2 = max 0 (of_int \<lfloor>bx2 * of_nat Sw / Ow\<rfloor>))) \<and>
         (Oh \<noteq> 0 \<and> representable (of_nat Sh / Oh) \<longrightarrow>
            (representable (by1 * (of_nat Sh / Oh)) \<longrightarrow> y1 = max 0 (of_int \<lfloor>by1 * of_nat Sh / Oh\<rfloor>)) \<and>
            (representable (by2 * (of_nat Sh / Oh)) \<longrightarrow> y2 = max 0 (of_int \<lfloor>by2 * of_nat Sh / Oh\<rfloor>))) \<and>
         (representable (x2 - x1) \<longrightarrow> dw = x2 - x1) \<and>
         (representable (y2 - y1) \<longrightarrow> dh = y2 - y1)"
proof -
  have "StrokeRect (stroke_of r) (lineWidth (draw (render e d s))) x1 y1 (max 0 dw) (max 0 dh)
           \<in> set (ops (draw (render e d s)))"
    by (rule box_stroked [OF assms])
  moreover have "\<forall>op \<in> set (ops (draw (render e d s))). nonneg_rect op"
    using render_nonneg [of e d s] by (simp add: list_all_iff)
  moreover have "x1 = max 0 (of_int \<lfloor>bx1 * of_nat Sw / Ow\<rfloor>)"
    if "Ow \<noteq> 0" "representable (of_nat Sw / Ow)" "representable (bx1 * (of_nat Sw / Ow))"
    using scaled_exact [OF assms(7) that] assms(11) by simp
  moreover have "x2 = max 0 (of_int \<lfloor>bx2 * of_nat Sw / Ow\<rfloor>)"
    if "Ow \<noteq> 0" "representable (of_nat Sw / Ow)" "representable (bx2 * (of_nat Sw / Ow))"
    using scaled_exact [OF assms(9) that] assms(13) by simp
  moreover have "y1 = max 0 (of_int \<lfloor>by1 * of_nat Sh / Oh\<rfloor>)"
    if "Oh \<noteq> 0" "representable (of_nat Sh / Oh)" "representable (by1 * (of_nat Sh / Oh))"
    using scaled_exact [OF assms(8) that] assms(12) by simp
  moreover have "y2 = max 0 (of_int \<lfloor>by2 * of_nat Sh / Oh\<rfloor>)"
    if "Oh \<noteq> 0" "representable (of_nat Sh / Oh)" "representable (by2 * (of_nat Sh / Oh))"
    using scaled_exact [OF assms(10) that] assms(14) by simp
  moreover have "dw = x2 - x1" if "representable (x2 - x1)"
    using js_sub_exact [OF that] assms(15) by simp
  moreover have "dh = y2 - y1" if "representable (y2 - y1)"
    using js_sub_exact [OF that] assms(16) by simp
  ultimately show ?thesis by blast
qed

lemma example_results: "results example_data = Some [stranger, broken, ada]"
  by (simp add: example_data_def)

lemma example_source: "source_size example_env example_data = (640, 480)"
  by (simp add: source_size_def example_data_def)

lemma example_size:
  "cwidth (draw (render example_env example_data example_page)) = 1280"
  "cheight (draw (render example_env example_data example_page)) = 960"
  using render_size [OF example_results, of example_env example_page]
  by (simp_all add: example_env_def)

lemma example_scale:
  "js_div (of_dim 1280) (Fin 640) = Fin 2" "js_div (of_dim 960) (Fin 480) = Fin 2"
  by (simp_all add: of_dim_def to_double_numeral)

text \<open>
  The box \<open>[100, 50, 300, 250]\<close> of a 640 by 480 image on a 1280 by 960 surface: the scale
  is 2, no product is rounded, and the rectangle is stroked from (200, 100), 400 wide and
  400 high, so up to (600, 500).
\<close>

theorem bbox_mapping_witness:
  "results example_data = Some [stranger, broken, ada] \<and> ada \<in> set [stranger, broken, ada] \<and>
   bbox ada = Some [100, 50, 300, 250] \<and> source_size example_env example_data = (640, 480) \<and>
   cwidth (draw (render example_env example_data example_page)) = 1280 \<and>
   cheight (draw (render example_env example_data example_page)) = 960 \<and>
   js_mul (Fin 100) (js_div (of_dim 1280) (Fin 640)) = Fin 200 \<and>
   js_mul (Fin 50) (js_div (of_dim 960) (Fin 480)) = Fin 100 \<and>
   js_mul (Fin 300) (js_div (of_dim 1280) (Fin 640)) = Fin 600 \<and>
   js_mul (Fin 250) (js_div (of_dim 960) (Fin 480)) = Fin 500 \<and>
   js_sub (Fin 600) (Fin 200) = Fin 400 \<and> js_sub (Fin 500) (Fin 100) = Fin 400 \<and>
   representable (rat_of_nat 1280 / 640) \<and> representable (100 * (rat_of_nat 1280 / 640)) \<and>
   representable (600 - 200) \<and>
   StrokeRect (stroke_of ada) (lineWidth (draw (render example_env example_data example_page)))
       200 100 400 400
     \<in> set (ops (draw (render example_env example_data example_page))) \<and>
   list_all nonneg_rect (ops (draw (render example_env example_data example_page)))"
proof -
  have e: "representable (rat_of_nat 1280 / 640)" "representable (100 * (rat_of_nat 1280 / 640))"
    "representable (600 - 200)"
    by (simp_all add: representable_def to_double_numeral)
  have b: "bbox ada = Some [100, 50, 300, 250]"
    by (simp add: ada_def)
  have m: "ada \<in> set [stranger, broken, ada]"
    by simp
  have p: "js_mul (Fin 100) (js_div (of_dim 1280) (Fin 640)) = Fin 200"
    "js_mul (Fin 50) (js_div (of_dim 960) (Fin 480)) = Fin 100"
    "js_mul (Fin 300) (js_div (of_dim 1280) (Fin 640)) = Fin 600"
    "js_mul (Fin 250) (js_div (of_dim 960) (Fin 480)) = Fin 500"
    by (simp_all add: example_scale to_double_numeral)
  have f: "(200::rat) = max 0 (of_int \<lfloor>200::rat\<rfloor>)" "(100::rat) = max 0 (of_int \<lfloor>100::rat\<rfloor>)"
    "(600::rat) = max 0 (of_int \<lfloor>600::rat\<rfloor>)" "(500::rat) = max 0 (of_int \<lfloor>500::rat\<rfloor>)"
    by simp_all
  have d: "js_sub (Fin 600) (Fin 200) = Fin 400" "js_sub (Fin 500) (Fin 100) = Fin 400"
    by (simp_all add: js_sub_def to_double_numeral)
  have "StrokeRect (stroke_of ada) (lineWidth (draw (render example_env example_data example_page)))
       200 100 (max 0 400) (max 0 400)
     \<in> set (ops (draw (render example_env example_data example_page))) \<and>
     (\<forall>op \<in> set (ops (draw (render example_env example_data example_page))). nonneg_rect op)"
    using bbox_mapping [OF example_results m b example_source example_size(1) [symmetric]
        example_size(2) [symmetric] p f d]
    by blast
  then show ?thesis
    using example_results b example_source example_size p d e by (simp add: list_all_iff)
qed

lemma draw_box_ops:
  assumes "js_max (Fin 0) (js_floor (js_mul (Fin bx1) sx)) = Fin x1"
    and "js_max (Fin 0) (js_floor (js_mul (Fin by1) sy)) = Fin y1"
    and "js_max (Fin 0) (js_floor (js_mul (Fin bx2) sx)) = Fin x2"
    and "js_max (Fin 0) (js_floor (js_mul (Fin by2) sy)) = Fin y2"
    and "js_max (Fin 0) (js_sub (Fin x2) (Fin x1)) = Fin w"
    and "js_max (Fin 0) (js_sub (Fin y2) (Fin y1)) = Fin h"
    and "js_max (Fin 14) (js_round (js_mul (Fin h) (to_double (8 / 100)))) = Fin fs"
    and "label_rect lw (Fin x1) (Fin y1) (cwidth c) fs (measureText e fs (label_of r)) =
           (Fin tx, Fin ty, Fin tw, Fin th)"
    and "js_add (Fin tx) (Fin 5) = Fin lx" and "js_add (Fin ty) (Fin 3) = Fin ly"
  shows "ops (draw_box e sx sy lw r bx1 by1 bx2 by2 c) =
         ops c @ [StrokeRect (stroke_of r) (lineWidth c) x1 y1 w h,
                  FillRect (lit ''rgba(0,0,0,0.65)'') tx ty tw th,
                  FillText (lit ''#e2e8f0'') fs (label_of r) lx ly]"
proof -
  have "14 \<le> fs" using js_max_lower [OF assms(7)] .
  then have f: "set_font (Fin fs) c' = c'\<lparr>font_px := fs\<rparr>" for c' :: canvas by simp
  show ?thesis
    unfolding draw_box_def draw_label_def Let_def assms(1-7) f
    using assms(9,10) by (simp add: assms(8))
qed

lemma render_one:
  assumes "results d = Some [r]" and "source_size e d = (Ow, Oh)"
    and "bbox r = Some [bx1, by1, bx2, by2]"
    and "stroke_width (match_video e (clearRect (draw s))) = Fin l" and "0 < l"
  shows "ops (draw (render e d s)) =
         ops (draw_box e (js_div (of_dim (videoWidth e)) (Fin Ow)) (js_div (of_dim (videoHeight e)) (Fin Oh))
                (Fin l) r bx1 by1 bx2 by2
                ((match_video e (clearRect (draw s)))\<lparr>lineWidth := l\<rparr>))"
  unfolding render_draw [OF assms(1,2)] assms(4)
  using assms(3,5) by (simp add: draw_result_def)

section \<open>The overlay: examples in double arithmetic\<close>

lemma js_round_int: "js_round (Fin (of_int k)) = Fin (of_int k)"
proof -
  have "\<lfloor>rat_of_int k + 1 / 2\<rfloor> = k" by linarith
  then show ?thesis by simp
qed

lemma js_round_numeral: "js_round (Fin (numeral k)) = Fin (numeral k)"
  using js_round_int [of "numeral k"] by simp

lemma double_scale: "to_double (128 / 49) = Fin (5882252574524729 / 2 ^ 51)"
  by (rule to_double_pos [where e = 1 and n = 5882252574524729])
    (simp_all add: exponent_def up_exp.simps ulp_def)

lemma double_49: "to_double (49 * (5882252574524729 / 2 ^ 51)) = Fin (9007199254740991 / 2 ^ 46)"
  by (rule to_double_pos [where e = 6 and n = 9007199254740991])
    (simp_all add: exponent_def up_exp.simps ulp_def)

lemma double_98: "to_double (98 * (5882252574524729 / 2 ^ 51)) = Fin (9007199254740991 / 2 ^ 45)"
  by (rule to_double_pos [where e = 7 and n = 9007199254740991])
    (simp_all add: exponent_def up_exp.simps ulp_def)

lemma floor_127: "\<lfloor>(9007199254740991::rat) / 2 ^ 46\<rfloor> = 127"
  by (rule floor_unique) simp_all

lemma floor_255: "\<lfloor>(9007199254740991::rat) / 2 ^ 45\<rfloor> = 255"
  by (rule floor_unique) simp_all

lemma double_8_100: "to_double (8 / 100) = Fin (5764607523034235 / 2 ^ 56)"
  by (rule to_double_pos [where e = "- 4" and n = 5764607523034235])
    (simp_all add: exponent_def down_exp.simps ulp_def)

lemma double_400_8: "to_double (400 * (5764607523034235 / 2 ^ 56)) = Fin 32"
  by (rule to_double_pos [where e = 5 and n = 4503599627370496])
    (simp_all add: exponent_def up_exp.simps ulp_def)

lemma double_16_5: "to_double (16 / 5) = Fin (3602879701896397 / 2 ^ 50)"
  by (rule to_double_pos [where e = 1 and n = 7205759403792794])
    (simp_all add: exponent_def up_exp.simps ulp_def)

lemma floor_16_5: "\<lfloor>(3602879701896397::rat) / 2 ^ 50 + 1 / 2\<rfloor> = 3"
  by (rule floor_unique) simp_all

lemma example_stroke_width:
  assumes "cwidth c = 1280" and "cheight c = 960"
  shows "stroke_width c = Fin 3"
proof -
  have "js_div (Fin 960) (Fin 300) = Fin (3602879701896397 / 2 ^ 50)"
    unfolding js_div.simps using double_16_5 by simp
  then have "js_round (js_div (Fin 960) (Fin 300)) = Fin 3"
    unfolding js_round.simps by (simp only: js_round.simps floor_16_5) simp
  then show ?thesis
    unfolding stroke_width_def assms of_dim_def by simp
qed

lemma font_400: "js_max (Fin 14) (js_round (js_mul (Fin 400) (to_double (8 / 100)))) = Fin 32"
  unfolding double_8_100 js_mul.simps double_400_8 js_round_numeral by simp


lemma skewed_facts:
  "results skewed_data = Some [skewed]" "source_size example_env skewed_data = (490, 480)"
  "bbox skewed = Some [49, 50, 98, 250]" "label_of skewed = label_of ada"
  by (simp_all add: skewed_data_def source_size_def skewed_def label_of_def)

lemma label_ada: "length (label_of ada) = 7"
  by (simp add: label_of_def pidFrag_def ada_def lit_simps)

lemma example_surface:
  "cwidth (match_video example_env (clearRect (draw example_page))) = 1280"
  "cheight (match_video example_env (clearRect (draw example_page))) = 960"
  "ops (match_video example_env (clearRect (draw example_page))) = []"
  by (simp_all add: example_env_def)

text \<open>
  Against C1 as stated: for the box \<open>[49, 50, 98, 250]\<close> of a 490 by 480 image on a 1280
  by 960 surface, the floor of \<open>49 * 1280 / 490\<close> is 128. The page rounds \<open>1280 / 490\<close> to
  a double below the quotient; 49 times that double rounds to the double just below 128,
  and 98 times it to the double just below 256. The rectangle is stroked from x = 127,
  and its label is anchored there too.
\<close>

theorem rounded_scale_moves_box:
  "bbox skewed = Some [49, 50, 98, 250] \<and> image_size skewed_data = Some [490, 480] \<and>
   cwidth (draw (render example_env skewed_data example_page)) = 1280 \<and>
   ops (draw (render example_env skewed_data example_page)) =
     [StrokeRect (stroke_of skewed) 3 127 100 128 400,
      FillRect (lit ''rgba(0,0,0,0.65)'') 127 58 122 38,
      FillText (lit ''#e2e8f0'') 32 (label_of skewed) 132 61] \<and>
   max 0 (rat_of_int \<lfloor>49 * rat_of_nat 1280 / 490\<rfloor>) = 128"
proof -
  define mv where "mv = match_video example_env (clearRect (draw example_page))"
  have sw: "stroke_width mv = Fin 3"
    unfolding mv_def by (rule example_stroke_width) (rule example_surface)+
  have v: "videoWidth example_env = 1280" "videoHeight example_env = 960"
    by (simp_all add: example_env_def)
  have sx: "js_div (of_dim 1280) (Fin 490) = Fin (5882252574524729 / 2 ^ 51)"
    unfolding of_dim_def js_div.simps using double_scale by simp
  have sy: "js_div (of_dim 960) (Fin 480) = Fin 2"
    by (simp add: of_dim_def to_double_numeral)
  have x1: "js_max (Fin 0) (js_floor (js_mul (Fin 49) (Fin (5882252574524729 / 2 ^ 51)))) = Fin 127"
    unfolding js_mul.simps double_49 js_floor.simps floor_127 by simp
  have x2: "js_max (Fin 0) (js_floor (js_mul (Fin 98) (Fin (5882252574524729 / 2 ^ 51)))) = Fin 255"
    unfolding js_mul.simps double_98 js_floor.simps floor_255 by simp
  have y1: "js_max (Fin 0) (js_floor (js_mul (Fin 50) (Fin 2))) = Fin 100"
    by (simp add: to_double_numeral)
  have y2: "js_max (Fin 0) (js_floor (js_mul (Fin 250) (Fin 2))) = Fin 500"
    by (simp add: to_double_numeral)
  have w: "js_max (Fin 0) (js_sub (Fin 255) (Fin 127)) = Fin 128"
    by (simp add: js_sub_def to_double_numeral)
  have h: "js_max (Fin 0) (js_sub (Fin 500) (Fin 100)) = Fin 400"
    by (simp add: js_sub_def to_double_numeral)
  have m: "measureText example_env 32 (label_of skewed) = 112"
    by (simp add: example_env_def skewed_facts(4) label_ada)
  have cw: "cwidth (mv\<lparr>lineWidth := 3\<rparr>) = 1280"
    by (simp add: mv_def v)
  have l: "label_rect (Fin 3) (Fin 127) (Fin 100) (cwidth (mv\<lparr>lineWidth := 3\<rparr>)) 32
             (measureText example_env 32 (label_of skewed)) =
           (Fin 127, Fin 58, Fin 122, Fin 38)"
    unfolding m cw
    by (rule trans [OF label_rect_finite [where tw = 122 and th = 38 and t_above = 58
            and t_below = 103 and slack = 1156]])
      (simp_all add: js_sub_def of_dim_def to_double_numeral js_round_numeral
        del: js_round.simps)
  have "ops (draw (render example_env skewed_data example_page)) =
        ops (draw_box example_env (Fin (5882252574524729 / 2 ^ 51)) (Fin 2) (Fin 3) skewed 49 50 98 250
               (mv\<lparr>lineWidth := 3\<rparr>))"
    using render_one [OF skewed_facts(1,2,3), of example_page 3] sw
    unfolding mv_def [symmetric] v sx sy by simp
  also have "\<dots> = ops (mv\<lparr>lineWidth := 3\<rparr>) @
       [StrokeRect (stroke_of skewed) (lineWidth (mv\<lparr>lineWidth := 3\<rparr>)) 127 100 128 400,
        FillRect (lit ''rgba(0,0,0,0.65)'') 127 58 122 38,
        FillText (lit ''#e2e8f0'') 32 (label_of skewed) 132 61]"
    by (rule draw_box_ops [OF x1 y1 x2 y2 w h font_400 l]) (simp_all add: to_double_numeral)
  finally have "ops (draw (render example_env skewed_data example_page)) =
     [StrokeRect (stroke_of skewed) 3 127 100 128 400,
      FillRect (lit ''rgba(0,0,0,0.65)'') 127 58 122 38,
      FillText (lit ''#e2e8f0'') 32 (label_of skewed) 132 61]"
    by (simp add: mv_def example_surface)
  moreover have "max 0 (rat_of_int \<lfloor>49 * rat_of_nat 1280 / 490\<rfloor>) = 128"
    by simp
  moreover have "cwidth (draw (render example_env skewed_data example_page)) = 1280"
    using render_size [OF skewed_facts(1), of example_env example_page] v by simp
  moreover have "image_size skewed_data = Some [490, 480]"
    by (simp add: skewed_data_def)
  ultimately show ?thesis
    using skewed_facts(3) by simp
qed

section \<open>The label\<close>

















section \<open>The toggle: properties\<close>

lemma start_frame [simp]:
  "recognizing (loopRecognize_start s) = recognizing s"
  "recogTimer (loopRecognize_start s) = recogTimer s"
  "timers (loopRecognize_start s) = timers s"
  "draw (loopRecognize_start s) = draw s"
  "inflight (loopRecognize_start s) = (if recognizing s then inflight s + 1 else inflight s)"
  by (simp_all add: loopRecognize_start_def)

lemma toggle_on:
  "\<not> recognizing s \<Longrightarrow>
   recognizing (toggle_click s) \<and> recogTimer (toggle_click s) = recogTimer s \<and>
   timers (toggle_click s) = timers s \<and> draw (toggle_click s) = draw s \<and>
   inflight (toggle_click s) = inflight s + 1"
  by (simp add: toggle_click_def Let_def)

lemma toggle_off:
  "recognizing s \<Longrightarrow>
   \<not> recognizing (toggle_click s) \<and> recogTimer (toggle_click s) = None \<and>
   inflight (toggle_click s) = inflight s \<and>
   timers (toggle_click s) =
     (case recogTimer s of Some h \<Rightarrow> clearTimeout h (timers s) | None \<Rightarrow> timers s) \<and>
   ops (draw (toggle_click s)) = (case recogTimer s of Some h \<Rightarrow> [] | None \<Rightarrow> ops (draw s))"
  by (simp add: toggle_click_def Let_def clearRect_def split: option.splits)

lemma step_clear_unless_timer:
  assumes "clear_unless_timer s" and "step ev s = Some s'"
  shows "clear_unless_timer s'"
proof (cases ev)
  case Click
  then have s': "s' = toggle_click s" using assms(2) by simp
  show ?thesis
  proof (cases "recognizing s")
    case True
    then show ?thesis
      using toggle_off [of s] assms(1) s'
      by (auto simp: clear_unless_timer_def split: option.splits)
  next
    case False
    then show ?thesis
      using toggle_on [of s] assms(1) s' by (simp add: clear_unless_timer_def)
  qed
next
  case (TimerFire h)
  then show ?thesis
    using assms by (auto simp: clear_unless_timer_def split: if_splits)
next
  case (CycleDone e out)
  then show ?thesis
    using assms by (auto simp: clear_unless_timer_def split: if_splits)
qed

lemma run_clear_unless_timer:
  "clear_unless_timer s \<Longrightarrow> run evs s = Some s' \<Longrightarrow> clear_unless_timer s'"
proof (induction evs arbitrary: s)
  case Nil
  then show ?case by simp
next
  case (Cons ev evs)
  then show ?case
    by (auto split: option.splits dest: step_clear_unless_timer)
qed

lemma single_cycle_timers:
  assumes "single_cycle s"
  shows "timers s = [] \<or> (\<exists>h d. timers s = [(h, d)] \<and> recogTimer s = Some h \<and> inflight s = 0)"
proof (cases "timers s")
  case Nil
  then show ?thesis by simp
next
  case (Cons t ts)
  then have "ts = []" "inflight s = 0" "recogTimer s = Some (fst t)"
    using assms by (auto simp: single_cycle_def)
  then show ?thesis using Cons by (cases t) auto
qed

lemma step_single_cycle:
  assumes "single_cycle s" and "step ev s = Some s'"
    and "ev = Click \<and> \<not> recognizing s \<longrightarrow> inflight s = 0 \<and> timers s = []"
  shows "single_cycle s'"
proof (cases ev)
  case Click
  then have s': "s' = toggle_click s" using assms(2) by simp
  show ?thesis
  proof (cases "recognizing s")
    case True
    then show ?thesis
      using toggle_off [of s] single_cycle_timers [OF assms(1)] assms(1) s'
      by (auto simp: single_cycle_def clearTimeout_def split: option.splits)
  next
    case False
    then show ?thesis
      using toggle_on [of s] assms(3) Click s' by (simp add: single_cycle_def)
  qed
next
  case (TimerFire h)
  then show ?thesis
    using assms(2) single_cycle_timers [OF assms(1)]
    by (auto simp: single_cycle_def clearTimeout_def split: if_splits)
next
  case (CycleDone e out)
  then have p: "0 < inflight s" and s': "s' = loopRecognize_finish e out s"
    using assms(2) by (auto split: if_splits)
  have "inflight s + length (timers s) \<le> 1"
    using assms(1) by (simp add: single_cycle_def)
  with p have "length (timers s) = 0 \<and> inflight s = 1"
    by arith
  then have "timers s = []" "inflight s = 1"
    by simp_all
  then show ?thesis using s' by (simp add: single_cycle_def)
qed

lemma run_single_cycle:
  "single_cycle s \<Longrightarrow> run evs s = Some s' \<Longrightarrow> unhurried evs s \<Longrightarrow> single_cycle s'"
proof (induction evs arbitrary: s)
  case Nil
  then show ?case by simp
next
  case (Cons ev evs)
  then obtain s1 where s1: "step ev s = Some s1" "run evs s1 = Some s'"
    by (auto split: option.splits)
  have "single_cycle s1"
    using step_single_cycle [OF Cons.prems(1) s1(1)] Cons.prems(3) by simp
  moreover have "unhurried evs s1"
    using Cons.prems(3) s1(1) by simp
  ultimately show ?case using Cons.IH s1(2) by blast
qed

lemma fresh_invariants: "fresh s \<Longrightarrow> clear_unless_timer s \<and> single_cycle s"
  by (simp add: fresh_def clear_unless_timer_def single_cycle_def)

text \<open>
  C3, as the code has it. In every state a freshly loaded page can reach with recognition
  on, a click on the toggle switches recognition off, resets \<open>recogTimer\<close>, cancels the
  timeout whose handle was stored there, and leaves the surface clear at once, whether or
  not a cycle is in flight (the handler clears it when a handle is stored, and while none
  is stored nothing is painted). When, in addition, recognition has only ever been switched
  on while no earlier cycle was in flight or pending, at most one timeout is pending at
  the click and none is pending after it.
\<close>

theorem toggle_off_cancels_and_clears:
  assumes "fresh s0" and "run evs s0 = Some s" and "recognizing s"
  shows "\<not> recognizing (toggle_click s) \<and> recogTimer (toggle_click s) = None \<and>
         ops (draw (toggle_click s)) = [] \<and>
         (\<forall>h. recogTimer s = Some h \<longrightarrow> h \<notin> fst ` set (timers (toggle_click s))) \<and>
         (unhurried evs s0 \<longrightarrow> length (timers s) \<le> 1 \<and> timers (toggle_click s) = [])"
proof -
  have c: "clear_unless_timer s"
    using run_clear_unless_timer [OF _ assms(2)] fresh_invariants [OF assms(1)] by simp
  note t = toggle_off [OF assms(3)]
  have 1: "ops (draw (toggle_click s)) = []"
    using t c by (auto simp: clear_unless_timer_def split: option.splits)
  have 2: "\<forall>h. recogTimer s = Some h \<longrightarrow> h \<notin> fst ` set (timers (toggle_click s))"
    using t by (auto simp: clearTimeout_def)
  have 3: "unhurried evs s0 \<longrightarrow> length (timers s) \<le> 1 \<and> timers (toggle_click s) = []"
  proof
    assume "unhurried evs s0"
    then have "single_cycle s"
      using run_single_cycle [OF _ assms(2)] fresh_invariants [OF assms(1)] by simp
    then show "length (timers s) \<le> 1 \<and> timers (toggle_click s) = []"
      using single_cycle_timers [of s] t by (auto simp: clearTimeout_def split: option.splits)
  qed
  show ?thesis using t 1 2 3 by simp
qed

lemma fresh_example: "fresh example_page"
  by (simp add: fresh_def example_page_def)

lemma first_click:
  "toggle_click example_page =
     example_page\<lparr>recognizing := True, toggleText := lit ''Stop Recognizing'', inflight := 1\<rparr>"
  by (simp add: toggle_click_def loopRecognize_start_def Let_def example_page_def)

theorem toggle_off_cancels_and_clears_witness:
  "fresh example_page \<and>
   run [Click, CycleDone example_env (Parsed (Some example_data))] example_page =
     Some (loopRecognize_finish example_env (Parsed (Some example_data)) (toggle_click example_page)) \<and>
   unhurried [Click, CycleDone example_env (Parsed (Some example_data))] example_page \<and>
   recognizing (loopRecognize_finish example_env (Parsed (Some example_data)) (toggle_click example_page)) \<and>
   timers (loopRecognize_finish example_env (Parsed (Some example_data)) (toggle_click example_page)) =
     [(1, 1000)] \<and>
   ops (draw (toggle_click
     (loopRecognize_finish example_env (Parsed (Some example_data)) (toggle_click example_page)))) = [] \<and>
   timers (toggle_click
     (loopRecognize_finish example_env (Parsed (Some example_data)) (toggle_click example_page))) = []"
proof -
  have i: "0 < inflight (toggle_click example_page)" "recognizing (toggle_click example_page)"
    "timers (toggle_click example_page) = []" "next_handle (toggle_click example_page) = 1"
    by (simp_all add: first_click) (simp_all add: example_page_def)
  have r: "run [Click, CycleDone example_env (Parsed (Some example_data))] example_page =
     Some (loopRecognize_finish example_env (Parsed (Some example_data)) (toggle_click example_page))"
    using i by simp
  have u: "unhurried [Click, CycleDone example_env (Parsed (Some example_data))] example_page"
    using i by (simp add: example_page_def)
  have g: "recognizing (loopRecognize_finish example_env (Parsed (Some example_data)) (toggle_click example_page))"
    using i by simp
  show ?thesis
    using toggle_off_cancels_and_clears [OF fresh_example r g] fresh_example r u g i
    by simp
qed

text \<open>
  Against C3 as stated: on, off and on again while the first cycle is still in flight puts
  two cycles in flight; when both have settled two timeouts are pending, and switching
  recognition off then cancels only the one whose handle is stored.
\<close>

theorem rapid_toggling_leaves_two_timers:
  "map_option (\<lambda>s. (recognizing s, map fst (timers s)))
     (run [Click, Click, Click, CycleDone example_env FetchRejected,
           CycleDone example_env FetchRejected] example_page) = Some (True, [1, 2]) \<and>
   map_option (\<lambda>s. (recognizing s, map fst (timers s)))
     (run [Click, Click, Click, CycleDone example_env FetchRejected,
           CycleDone example_env FetchRejected, Click] example_page) = Some (False, [1])"
  by (simp add: toggle_click_def loopRecognize_start_def finish_rejected schedule_next_def
      clearTimeout_def Let_def example_page_def)

end
